theory Spec2Isabelle
  imports Complex_Main "HOL-Library.Word" "HOL-Library.Multiset"
begin

section \<open>Values of the host language\<close>

text \<open>
  A string of the program is a sequence of 16-bit code units, and \<open>length\<close> counts them
  as \<^verbatim>\<open>String.prototype.length\<close> does. Numbers of the program are modelled as exact
  reals: \<^verbatim>\<open>NaN\<close>, the infinities and the rounding of binary floating point are outside
  the model.
\<close>

type_synonym jsstring = "16 word list"

definition lit :: "string \<Rightarrow> jsstring" where
  "lit s = map of_char s"

text \<open>
  The characters removed by \<^verbatim>\<open>String.prototype.trim\<close>: the WhiteSpace and
  LineTerminator code points of ECMAScript.
\<close>

definition is_js_whitespace :: "16 word \<Rightarrow> bool" where
  "is_js_whitespace c \<longleftrightarrow>
     c = 0x9 \<or> c = 0xA \<or> c = 0xB \<or> c = 0xC \<or> c = 0xD \<or> c = 0x20 \<or> c = 0xA0 \<or>
     c = 0x1680 \<or> (0x2000 \<le> c \<and> c \<le> 0x200A) \<or> c = 0x2028 \<or> c = 0x2029 \<or>
     c = 0x202F \<or> c = 0x205F \<or> c = 0x3000 \<or> c = 0xFEFF"

definition trim :: "jsstring \<Rightarrow> jsstring" where
  "trim s = rev (dropWhile is_js_whitespace (rev (dropWhile is_js_whitespace s)))"

text \<open>
  \<^verbatim>\<open>s.slice(start)\<close> and \<^verbatim>\<open>s.slice(start, end)\<close> for integral arguments: a negative
  index counts from the end, and both ends are clipped to the string.
\<close>

definition js_slice_index :: "nat \<Rightarrow> int \<Rightarrow> nat" where
  "js_slice_index len i = (if i < 0 then nat (max (int len + i) 0) else min (nat i) len)"

definition js_slice :: "'a list \<Rightarrow> int \<Rightarrow> int \<Rightarrow> 'a list" where
  "js_slice s start end =
     (let from = js_slice_index (length s) start; to = js_slice_index (length s) end
      in take (to - from) (drop from s))"

definition js_slice_from :: "'a list \<Rightarrow> int \<Rightarrow> 'a list" where
  "js_slice_from s start = drop (js_slice_index (length s) start) s"

text \<open>
  \<^verbatim>\<open>[...new Set(xs)]\<close>: the distinct elements in the order of their first occurrence.
\<close>

fun set_spread :: "'a list \<Rightarrow> 'a list" where
  "set_spread [] = []"
| "set_spread (x # xs) = x # set_spread (removeAll x xs)"

text \<open>
  \<^verbatim>\<open>clamp\<close> and \<^verbatim>\<open>roundTo\<close> of \<^verbatim>\<open>rag/workflow.ts\<close> (the same two functions are repeated in
  \<^verbatim>\<open>extraction/shipment.ts\<close>). \<^verbatim>\<open>Math.round\<close> rounds a half towards plus infinity, as
  \<^const>\<open>round\<close> does. \<open>roundTo\<close> is the call with the default of four decimals.
\<close>

definition clamp :: "real \<Rightarrow> real \<Rightarrow> real \<Rightarrow> real" where
  "clamp v lo hi = max lo (min hi v)"

definition roundTo_decimals :: "real \<Rightarrow> nat \<Rightarrow> real" where
  "roundTo_decimals v decimals =
     (let factor = 10 ^ decimals in real_of_int (round (v * factor)) / factor)"

definition roundTo :: "real \<Rightarrow> real" where
  "roundTo v = roundTo_decimals v 4"

datatype jsval = JUndefined | JNull | JString jsstring | JNumber real | JNonFinite

datatype error =
    DocIntelligenceError jsstring nat
  | Error jsstring

section \<open>Configuration\<close>

record env =
  openAiApiKey :: "jsstring option"
  pineconeNamespace :: jsstring
  guardrailMinTopScore :: real
  guardrailLowConfidence :: real
  guardrailCautionConfidence :: real

text \<open>The values used when the environment variables are not set.\<close>

definition default_env :: "jsstring \<Rightarrow> env" where
  "default_env key =
     \<lparr> openAiApiKey = Some key, pineconeNamespace = lit ''tenant-demo'',
       guardrailMinTopScore = 0.85, guardrailLowConfidence = 0.4,
       guardrailCautionConfidence = 0.6 \<rparr>"

text \<open>\<^verbatim>\<open>requireEnv("openAiApiKey")\<close>: an absent or empty key raises.\<close>

definition requireEnv_openAiApiKey :: "env \<Rightarrow> error option" where
  "requireEnv_openAiApiKey e =
     (case openAiApiKey e of
        None \<Rightarrow> Some (Error (lit ''Missing required environment variables: openAiApiKey''))
      | Some k \<Rightarrow>
          if k = [] then Some (Error (lit ''Missing required environment variables: openAiApiKey''))
          else None)"

section \<open>Structured extraction (\<^verbatim>\<open>extraction/shipment.ts\<close>)\<close>

record ShipmentExtraction =
  shipment_id :: "jsstring option"
  shipper :: "jsstring option"
  consignee :: "jsstring option"
  pickup_datetime :: "jsstring option"
  delivery_datetime :: "jsstring option"
  equipment_type :: "jsstring option"
  mode :: "jsstring option"
  rate :: "real option"
  currency :: "jsstring option"
  weight :: "real option"
  carrier_name :: "jsstring option"

text \<open>The value the structured-output model returns, before normalisation.\<close>

record ModelOutput =
  out_shipment_id :: jsval
  out_shipper :: jsval
  out_consignee :: jsval
  out_pickup_datetime :: jsval
  out_delivery_datetime :: jsval
  out_equipment_type :: jsval
  out_mode :: jsval
  out_rate :: jsval
  out_currency :: jsval
  out_weight :: jsval
  out_carrier_name :: jsval
  self_assessed_confidence :: real

fun toNullableString :: "jsval \<Rightarrow> jsstring option" where
  "toNullableString (JString v) =
     (let trimmed = trim v in if length trimmed > 0 then Some trimmed else None)"
| "toNullableString _ = None"

text \<open>
  \<^verbatim>\<open>value.replace(/[^0-9.-]/g, "")\<close> keeps the digits, the dot and the minus sign.
  \<^verbatim>\<open>Number.parseFloat\<close> belongs to the host language and is a parameter: \<open>None\<close> stands
  for a result that is not finite.
\<close>

definition is_numeric_char :: "16 word \<Rightarrow> bool" where
  "is_numeric_char c \<longleftrightarrow> (0x30 \<le> c \<and> c \<le> 0x39) \<or> c = 0x2E \<or> c = 0x2D"

fun toNullableNumber :: "(jsstring \<Rightarrow> real option) \<Rightarrow> jsval \<Rightarrow> real option" where
  "toNullableNumber parseFloat (JNumber v) = Some v"
| "toNullableNumber parseFloat (JString v) =
     (let cleaned = trim (filter is_numeric_char v)
      in if length cleaned = 0 then None else parseFloat cleaned)"
| "toNullableNumber parseFloat _ = None"

fun of_nullable_string :: "jsstring option \<Rightarrow> jsval" where
  "of_nullable_string None = JNull"
| "of_nullable_string (Some s) = JString s"

fun of_nullable_number :: "real option \<Rightarrow> jsval" where
  "of_nullable_number None = JNull"
| "of_nullable_number (Some v) = JNumber v"

text \<open>\<^verbatim>\<open>Object.values(extraction)\<close>: the eleven values in the order of the keys.\<close>

definition Object_values :: "ShipmentExtraction \<Rightarrow> jsval list" where
  "Object_values e =
     [of_nullable_string (shipment_id e), of_nullable_string (shipper e),
      of_nullable_string (consignee e), of_nullable_string (pickup_datetime e),
      of_nullable_string (delivery_datetime e), of_nullable_string (equipment_type e),
      of_nullable_string (mode e), of_nullable_number (rate e),
      of_nullable_string (currency e), of_nullable_number (weight e),
      of_nullable_string (carrier_name e)]"

definition computeExtractionConfidence :: "ShipmentExtraction \<Rightarrow> real \<Rightarrow> real" where
  "computeExtractionConfidence extraction modelConfidence =
     (let fields = Object_values extraction;
          present = length (filter (\<lambda>v. v \<noteq> JNull) fields);
          completeness = real present / real (length fields)
      in roundTo (0.65 * modelConfidence + 0.35 * completeness))"

text \<open>
  \<open>extractShipmentData\<close> after the call of the model: \<open>llm\<close> is what the call returned
  or raised.
\<close>

definition normalize_output ::
  "(jsstring \<Rightarrow> real option) \<Rightarrow> ModelOutput \<Rightarrow> ShipmentExtraction" where
  "normalize_output parseFloat output =
     \<lparr> shipment_id = toNullableString (out_shipment_id output),
       shipper = toNullableString (out_shipper output),
       consignee = toNullableString (out_consignee output),
       pickup_datetime = toNullableString (out_pickup_datetime output),
       delivery_datetime = toNullableString (out_delivery_datetime output),
       equipment_type = toNullableString (out_equipment_type output),
       mode = toNullableString (out_mode output),
       rate = toNullableNumber parseFloat (out_rate output),
       currency = toNullableString (out_currency output),
       weight = toNullableNumber parseFloat (out_weight output),
       carrier_name = toNullableString (out_carrier_name output) \<rparr>"

definition extractShipmentData ::
  "env \<Rightarrow> (jsstring \<Rightarrow> real option) \<Rightarrow> error + ModelOutput \<Rightarrow>
   error + ShipmentExtraction \<times> real" where
  "extractShipmentData e parseFloat llm =
     (case requireEnv_openAiApiKey e of
        Some err \<Rightarrow> Inl err
      | None \<Rightarrow>
          (case llm of
             Inl err \<Rightarrow> Inl err
           | Inr output \<Rightarrow>
               (let extraction = normalize_output parseFloat output;
                    confidence =
                      computeExtractionConfidence extraction (self_assessed_confidence output)
                in Inr (extraction, confidence))))"

text \<open>The count of the specification: how many of the eleven fields are not null.\<close>

definition non_null_field_count :: "ShipmentExtraction \<Rightarrow> nat" where
  "non_null_field_count e =
     (if shipment_id e = None then 0 else 1) + (if shipper e = None then 0 else 1) +
     (if consignee e = None then 0 else 1) + (if pickup_datetime e = None then 0 else 1) +
     (if delivery_datetime e = None then 0 else 1) + (if equipment_type e = None then 0 else 1) +
     (if mode e = None then 0 else 1) + (if rate e = None then 0 else 1) +
     (if currency e = None then 0 else 1) + (if weight e = None then 0 else 1) +
     (if carrier_name e = None then 0 else 1)"


section \<open>Chunking (\<^verbatim>\<open>chunking.ts\<close>)\<close>

definition DEFAULT_TARGET_CHARS :: int where
  "DEFAULT_TARGET_CHARS = 1200"

definition DEFAULT_OVERLAP_CHARS :: int where
  "DEFAULT_OVERLAP_CHARS = 180"

text \<open>The separator \<^verbatim>\<open>"\n\n"\<close> that joins paragraphs.\<close>

definition PARAGRAPH_SEP :: jsstring where
  "PARAGRAPH_SEP = [0xA, 0xA]"

text \<open>\<^verbatim>\<open>input.replace(/\r\n/g, "\n")\<close>.\<close>

fun replace_crlf :: "jsstring \<Rightarrow> jsstring" where
  "replace_crlf [] = []"
| "replace_crlf [c] = [c]"
| "replace_crlf (c # d # cs) =
     (if c = 0xD \<and> d = 0xA then 0xA # replace_crlf cs else c # replace_crlf (d # cs))"

text \<open>
  \<^verbatim>\<open>s.split(/\n{2,}/)\<close>: the pieces between the maximal runs of two or more line feeds.
  \<open>acc\<close> is the piece read so far, reversed; \<open>nl\<close> counts the line feeds just read.
\<close>

fun split_blank_lines_aux :: "jsstring \<Rightarrow> nat \<Rightarrow> jsstring \<Rightarrow> jsstring list" where
  "split_blank_lines_aux acc nl [] =
     (if nl \<ge> 2 then [rev acc, []] else if nl = 1 then [rev (0xA # acc)] else [rev acc])"
| "split_blank_lines_aux acc nl (c # cs) =
     (if c = 0xA then split_blank_lines_aux acc (Suc nl) cs
      else if nl \<ge> 2 then rev acc # split_blank_lines_aux [c] 0 cs
      else if nl = 1 then split_blank_lines_aux (c # 0xA # acc) 0 cs
      else split_blank_lines_aux (c # acc) 0 cs)"

definition split_blank_lines :: "jsstring \<Rightarrow> jsstring list" where
  "split_blank_lines s = split_blank_lines_aux [] 0 s"

text \<open>
  \<^verbatim>\<open>part.replace(/\s+/g, " ")\<close>: every maximal run of whitespace becomes one space.
  The flag says that the previous character was whitespace.
\<close>

fun collapse_whitespace_aux :: "bool \<Rightarrow> jsstring \<Rightarrow> jsstring" where
  "collapse_whitespace_aux in_run [] = []"
| "collapse_whitespace_aux in_run (c # cs) =
     (if is_js_whitespace c
      then (if in_run then collapse_whitespace_aux True cs
            else 0x20 # collapse_whitespace_aux True cs)
      else c # collapse_whitespace_aux False cs)"

definition collapse_whitespace :: "jsstring \<Rightarrow> jsstring" where
  "collapse_whitespace s = collapse_whitespace_aux False s"

definition splitIntoParagraphs :: "jsstring \<Rightarrow> jsstring list" where
  "splitIntoParagraphs input =
     (let normalized = trim (replace_crlf input)
      in if normalized = [] then []
         else filter (\<lambda>part. part \<noteq> [])
                (map (\<lambda>part. trim (collapse_whitespace part)) (split_blank_lines normalized)))"

text \<open>
  The body of the loop of \<open>buildOverlappingChunks\<close>, on the pair of the chunks pushed so
  far and the buffer \<^verbatim>\<open>current\<close>. The sizes are integral numbers;
  \<^verbatim>\<open>current.length > targetChars * 1.5\<close> is then \<open>2 * length > 3 * targetChars\<close>.
\<close>

definition chunk_step ::
  "int \<Rightarrow> int \<Rightarrow> jsstring list \<times> jsstring \<Rightarrow> jsstring \<Rightarrow> jsstring list \<times> jsstring" where
  "chunk_step targetChars overlapChars st paragraph =
     (let chunks = fst st; current = snd st
      in if length current = 0 then (chunks, paragraph)
         else
           (let candidate = current @ PARAGRAPH_SEP @ paragraph
            in if int (length candidate) \<le> targetChars then (chunks, candidate)
               else
                 (let chunks1 = chunks @ [current];
                      overlapText =
                        trim (js_slice_from current (max 0 (int (length current) - overlapChars)));
                      current1 =
                        (if overlapText \<noteq> [] then overlapText @ PARAGRAPH_SEP @ paragraph
                         else paragraph)
                  in if 2 * int (length current1) > 3 * targetChars
                     then (chunks1 @ [js_slice current1 0 targetChars],
                           trim (js_slice_from current1 (targetChars - overlapChars)))
                     else (chunks1, current1))))"

definition buildOverlappingChunks :: "jsstring list \<Rightarrow> int \<Rightarrow> int \<Rightarrow> jsstring list" where
  "buildOverlappingChunks paragraphs targetChars overlapChars =
     (if length paragraphs = 0 then []
      else
        (let st = foldl (chunk_step targetChars overlapChars) ([], []) paragraphs
         in if length (snd st) > 0 then fst st @ [snd st] else fst st))"

text \<open>The decimal digits of an integral number, as a template literal prints it.\<close>

fun digits_of :: "nat \<Rightarrow> jsstring" where
  "digits_of n =
     (if n < 10 then [0x30 + of_nat n] else digits_of (n div 10) @ [0x30 + of_nat (n mod 10)])"

declare digits_of.simps [simp del]

definition number_string :: "int \<Rightarrow> jsstring" where
  "number_string i = (if i < 0 then 0x2D # digits_of (nat (- i)) else digits_of (nat i))"

record DocumentMetadata =
  document_id :: jsstring
  tenant_id :: jsstring
  document_title :: jsstring
  source_file_name :: jsstring
  uploaded_at :: jsstring
  page_number :: int
  chunk_number :: int
  chunk_text :: jsstring

text \<open>The fields \<^verbatim>\<open>id\<close>, \<^verbatim>\<open>text\<close> and \<^verbatim>\<open>metadata\<close> of a chunk record.\<close>

record ChunkRecord =
  chunk_id :: jsstring
  chunk_body :: jsstring
  chunk_metadata :: DocumentMetadata

text \<open>
  The chunks of one page: \<open>g\<close> is \<^verbatim>\<open>globalChunkNumber\<close> when the page starts, and
  \<^verbatim>\<open>forEach\<close> passes each chunk with its index on the page.
\<close>

definition page_records ::
  "jsstring \<Rightarrow> jsstring \<Rightarrow> jsstring \<Rightarrow> jsstring \<Rightarrow> int \<Rightarrow> int \<Rightarrow> jsstring list \<Rightarrow>
   ChunkRecord list" where
  "page_records documentId tenantId fileName uploadedAt pageNumber g pageChunks =
     map (\<lambda>(pageIndex, chunkText).
            \<lparr> chunk_id = documentId @ lit ''#p'' @ number_string pageNumber @ lit ''c''
                          @ number_string (int pageIndex + 1),
              chunk_body = chunkText,
              chunk_metadata =
                \<lparr> document_id = documentId, tenant_id = tenantId, document_title = fileName,
                  source_file_name = fileName, uploaded_at = uploadedAt,
                  page_number = pageNumber, chunk_number = g + int pageIndex,
                  chunk_text = chunkText \<rparr> \<rparr>)
         (enumerate 0 pageChunks)"

fun pages_loop ::
  "jsstring \<Rightarrow> jsstring \<Rightarrow> jsstring \<Rightarrow> jsstring \<Rightarrow> int \<Rightarrow> int \<Rightarrow> int \<Rightarrow>
   (int \<times> jsstring) list \<Rightarrow> ChunkRecord list" where
  "pages_loop documentId tenantId fileName uploadedAt targetChars overlapChars g [] = []"
| "pages_loop documentId tenantId fileName uploadedAt targetChars overlapChars g (page # rest) =
     (let paragraphs = splitIntoParagraphs (snd page);
          pageChunks = buildOverlappingChunks paragraphs targetChars overlapChars
      in page_records documentId tenantId fileName uploadedAt (fst page) g pageChunks
         @ pages_loop documentId tenantId fileName uploadedAt targetChars overlapChars
             (g + int (length pageChunks)) rest)"

definition createChunksFromPages ::
  "jsstring \<Rightarrow> jsstring \<Rightarrow> jsstring \<Rightarrow> jsstring \<Rightarrow> (int \<times> jsstring) list \<Rightarrow>
   int option \<Rightarrow> int option \<Rightarrow> ChunkRecord list" where
  "createChunksFromPages documentId tenantId fileName uploadedAt pageTexts targetOpt overlapOpt =
     (let targetChars = (case targetOpt of Some t \<Rightarrow> t | None \<Rightarrow> DEFAULT_TARGET_CHARS);
          overlapChars = (case overlapOpt of Some v \<Rightarrow> v | None \<Rightarrow> DEFAULT_OVERLAP_CHARS)
      in pages_loop documentId tenantId fileName uploadedAt targetChars overlapChars 1 pageTexts)"

section \<open>Retrieval results and the evidence pool (\<^verbatim>\<open>rag/workflow.ts\<close>)\<close>

text \<open>
  The field \<^verbatim>\<open>id\<close> of a snippet is \<open>sid\<close> here and its \<^verbatim>\<open>text\<close> is \<open>stext\<close>; the
  fields of the answer record carry the prefix \<open>resp\<close> where the name is already taken.
\<close>

record SourceSnippet =
  sid :: jsstring
  score :: real
  stext :: jsstring
  metadata :: DocumentMetadata

definition TOP_K_PER_TOOL_CALL :: nat where
  "TOP_K_PER_TOOL_CALL = 6"

definition MAX_SOURCES_IN_STATE :: nat where
  "MAX_SOURCES_IN_STATE = 16"

text \<open>
  A \<^verbatim>\<open>Map\<close> keeps its keys in the order of their first insertion; \<^verbatim>\<open>set\<close> on a key
  that is present replaces the value in place.
\<close>

fun Map_set :: "'k \<Rightarrow> 'v \<Rightarrow> ('k \<times> 'v) list \<Rightarrow> ('k \<times> 'v) list" where
  "Map_set k v [] = [(k, v)]"
| "Map_set k v (p # ps) = (if fst p = k then (k, v) # ps else p # Map_set k v ps)"

definition merge_step ::
  "(jsstring \<times> SourceSnippet) list \<Rightarrow> SourceSnippet \<Rightarrow> (jsstring \<times> SourceSnippet) list" where
  "merge_step byId source =
     (case map_of byId (sid source) of
        None \<Rightarrow> Map_set (sid source) source byId
      | Some current \<Rightarrow>
          if score source > score current then Map_set (sid source) source byId else byId)"

text \<open>
  \<^verbatim>\<open>sort((a, b) => b.score - a.score)\<close> is a stable sort by descending score, and
  \<^verbatim>\<open>slice(0, limit)\<close> keeps the first \<open>limit\<close> entries.
\<close>

definition mergeSources ::
  "SourceSnippet list \<Rightarrow> SourceSnippet list \<Rightarrow> nat \<Rightarrow> SourceSnippet list" where
  "mergeSources existing incoming limit =
     (let byId = foldl merge_step [] (existing @ incoming)
      in take limit (sort_key (\<lambda>s. - score s) (map snd byId)))"

text \<open>The local constants of \<open>calculateConfidence\<close>, one definition each.\<close>

definition topScore_of :: "SourceSnippet list \<Rightarrow> real" where
  "topScore_of sources = (case sources of [] \<Rightarrow> 0 | s # _ \<Rightarrow> score s)"

definition secondScore_of :: "SourceSnippet list \<Rightarrow> real" where
  "secondScore_of sources =
     (case sources of _ # s # _ \<Rightarrow> score s | _ \<Rightarrow> topScore_of sources)"

definition retrievalSignal :: "SourceSnippet list \<Rightarrow> real" where
  "retrievalSignal sources = clamp (topScore_of sources / 2.5) 0 1"

definition agreementSignal :: "SourceSnippet list \<Rightarrow> real" where
  "agreementSignal sources =
     (if topScore_of sources > 0
      then clamp (secondScore_of sources / topScore_of sources) 0 1 else 0)"

definition validCitations :: "SourceSnippet list \<Rightarrow> jsstring list \<Rightarrow> nat" where
  "validCitations sources citedChunkIds =
     (let sourceIds = set (map sid sources)
      in length (filter (\<lambda>i. i \<in> sourceIds) citedChunkIds))"

definition citationSignal :: "SourceSnippet list \<Rightarrow> jsstring list \<Rightarrow> real" where
  "citationSignal sources citedChunkIds =
     (if length citedChunkIds > 0
      then clamp (real (validCitations sources citedChunkIds) / real (length citedChunkIds)) 0 1
      else 0)"

definition calculateConfidence :: "SourceSnippet list \<Rightarrow> jsstring list \<Rightarrow> real" where
  "calculateConfidence sources citedChunkIds =
     roundTo (0.6 * retrievalSignal sources + 0.25 * agreementSignal sources
              + 0.15 * citationSignal sources citedChunkIds)"

section \<open>The answering workflow\<close>

record AgentAnswer =
  answer :: jsstring
  grounded :: bool
  not_found :: bool
  cited_chunk_ids :: "jsstring list"

datatype guardrail_state = G_ok | G_caution | G_not_found

record AskResponse =
  resp_document_id :: jsstring
  resp_document_ids :: "jsstring list"
  resp_answer :: jsstring
  confidence :: real
  guardrail :: guardrail_state
  rewritten_query :: jsstring
  sources :: "SourceSnippet list"

text \<open>
  The calls to the vector store that an operation issues, in the order in which it
  issues them; a write is logged with the records that reached the store. An operation
  of the service returns its result together with this log.
\<close>

record DocumentRegistryItem =
  documentId :: jsstring
  fileName :: jsstring
  uploadedAt :: jsstring
  namespace :: jsstring
  tenantId :: jsstring
  chunkCount :: int

datatype effect =
    RegistryFetch jsstring
  | RegistryList
  | HybridQuery jsstring jsstring "jsstring list" nat
  | IndexUpsert jsstring "ChunkRecord list"
  | RegistryUpsert DocumentRegistryItem

text \<open>
  What the language models do is not computed by the program. The rewriting model either
  answers or raises; the agent calls the retrieval tool some number of times, each call
  with a query of its choice and the snippets the hybrid query returned, and then either
  returns (with or without a structured response) or raises.
\<close>

datatype agent_outcome =
    AgentReturned "(jsstring \<times> SourceSnippet list) list" "AgentAnswer option"
  | AgentThrew "(jsstring \<times> SourceSnippet list) list" error

definition NOT_FOUND_ANSWER :: jsstring where
  "NOT_FOUND_ANSWER = lit ''Not found in document.''"

definition CAUTION_NOTICE :: jsstring where
  "CAUTION_NOTICE = [0xA, 0xA] @ lit ''Caution: This answer has moderate confidence.''"

definition rewriteQuestion :: "jsstring \<Rightarrow> jsstring option \<Rightarrow> jsstring" where
  "rewriteQuestion question model_output =
     (case model_output of
        None \<Rightarrow> question
      | Some query \<Rightarrow>
          (let rewritten = trim query in if length rewritten > 0 then rewritten else question))"

text \<open>
  The tool \<open>retrieveDocumentChunks\<close> replaces the pool by the merge of the pool with
  the snippets of the call; \<open>gather\<close> is the pool after a sequence of calls.
\<close>

definition retrieve_step :: "SourceSnippet list \<Rightarrow> SourceSnippet list \<Rightarrow> SourceSnippet list" where
  "retrieve_step gatheredSources found =
     mergeSources gatheredSources found MAX_SOURCES_IN_STATE"

definition gather :: "SourceSnippet list list \<Rightarrow> SourceSnippet list" where
  "gather results = foldl retrieve_step [] results"

definition tool_log ::
  "jsstring \<Rightarrow> jsstring list \<Rightarrow> (jsstring \<times> SourceSnippet list) list \<Rightarrow> effect list" where
  "tool_log ns ids calls = map (\<lambda>c. HybridQuery (fst c) ns ids TOP_K_PER_TOOL_CALL) calls"

definition first_or_empty :: "jsstring list \<Rightarrow> jsstring" where
  "first_or_empty ids = (case ids of [] \<Rightarrow> [] | d # _ \<Rightarrow> d)"

definition default_structured :: AgentAnswer where
  "default_structured =
     \<lparr> answer = NOT_FOUND_ANSWER, grounded = False, not_found = True, cited_chunk_ids = [] \<rparr>"

definition runRagWorkflow ::
  "env \<Rightarrow> jsstring \<Rightarrow> jsstring \<Rightarrow> jsstring list \<Rightarrow> jsstring option \<Rightarrow> agent_outcome \<Rightarrow>
   (error + AskResponse) \<times> effect list" where
  "runRagWorkflow e question ns documentIds rewrite_output agent =
     (case requireEnv_openAiApiKey e of
        Some err \<Rightarrow> (Inl err, [])
      | None \<Rightarrow>
          (let rewrittenQuery = rewriteQuestion question rewrite_output in
           case agent of
             AgentThrew calls err \<Rightarrow> (Inl err, tool_log ns documentIds calls)
           | AgentReturned calls structuredResponse \<Rightarrow>
               (let gatheredSources = gather (map snd calls);
                    structured =
                      (case structuredResponse of Some s \<Rightarrow> s | None \<Rightarrow> default_structured);
                    topScore = topScore_of gatheredSources
                in if length gatheredSources = 0 \<or> topScore < guardrailMinTopScore e
                   then (Inr \<lparr> resp_document_id = first_or_empty documentIds,
                               resp_document_ids = documentIds,
                               resp_answer = NOT_FOUND_ANSWER,
                               confidence = 0,
                               guardrail = G_not_found,
                               rewritten_query = rewrittenQuery,
                               sources = gatheredSources \<rparr>,
                         tool_log ns documentIds calls)
                   else
                     (let confidence0 =
                            calculateConfidence gatheredSources (cited_chunk_ids structured);
                          answer0 = trim (answer structured);
                          verdict =
                            (if not_found structured \<or> \<not> grounded structured
                             then (G_not_found, NOT_FOUND_ANSWER, min confidence0 0.35)
                             else if confidence0 < guardrailLowConfidence e
                             then (G_not_found, NOT_FOUND_ANSWER, confidence0)
                             else if confidence0 < guardrailCautionConfidence e
                             then (G_caution, answer0 @ CAUTION_NOTICE, confidence0)
                             else (G_ok, answer0, confidence0))
                      in (Inr \<lparr> resp_document_id = first_or_empty documentIds,
                                 resp_document_ids = documentIds,
                                 resp_answer = fst (snd verdict),
                                 confidence = roundTo (snd (snd verdict)),
                                 guardrail = fst verdict,
                                 rewritten_query = rewrittenQuery,
                                 sources = gatheredSources \<rparr>,
                          tool_log ns documentIds calls)))))"

section \<open>The registry (\<^verbatim>\<open>storage/registry.ts\<close>)\<close>

text \<open>
  The metadata stored with a registry entry. A field that is missing from the stored
  record reads as the empty string (\<^verbatim>\<open>String(metadata.x ?? "")\<close>).
\<close>

record RegistryMetadata =
  record_type :: jsstring
  reg_document_id :: jsstring
  reg_file_name :: jsstring
  reg_uploaded_at :: jsstring
  reg_namespace :: jsstring
  reg_tenant_id :: jsstring
  reg_chunk_count :: int

definition REGISTRY_ID_PREFIX :: jsstring where
  "REGISTRY_ID_PREFIX = lit ''docmeta#''"

definition getRegistryNamespace :: "env \<Rightarrow> jsstring" where
  "getRegistryNamespace e = pineconeNamespace e @ lit '':registry''"

definition toRegistryId :: "jsstring \<Rightarrow> jsstring" where
  "toRegistryId docId = REGISTRY_ID_PREFIX @ docId"

definition toRegistryItem :: "RegistryMetadata option \<Rightarrow> DocumentRegistryItem option" where
  "toRegistryItem md =
     (case md of
        None \<Rightarrow> None
      | Some m \<Rightarrow>
          (let documentId' = trim (reg_document_id m);
               fileName' = trim (reg_file_name m);
               uploadedAt' = trim (reg_uploaded_at m);
               namespace' = trim (reg_namespace m);
               tenantId' = trim (reg_tenant_id m)
           in if documentId' = [] \<or> fileName' = [] \<or> uploadedAt' = [] \<or> namespace' = []
                 \<or> tenantId' = []
              then None
              else Some \<lparr> documentId = documentId', fileName = fileName',
                          uploadedAt = uploadedAt', namespace = namespace',
                          tenantId = tenantId', chunkCount = reg_chunk_count m \<rparr>))"

text \<open>
  \<open>fetch\<close> is the answer of the vector store to a fetch of one registry id: the call
  raises, or returns the metadata of the record, if there is one.
\<close>

definition getRegistryItem ::
  "(jsstring \<Rightarrow> error + RegistryMetadata option) \<Rightarrow> jsstring \<Rightarrow>
   error + DocumentRegistryItem option" where
  "getRegistryItem fetch docId =
     (case fetch (toRegistryId docId) of
        Inl err \<Rightarrow> Inl err
      | Inr md \<Rightarrow>
          (case toRegistryItem md of
             None \<Rightarrow> Inr None
           | Some mapped \<Rightarrow> Inr (Some (mapped\<lparr> documentId := docId \<rparr>))))"

section \<open>The service (\<^verbatim>\<open>services/doc-intelligence.ts\<close>)\<close>

definition DEFAULT_TENANT :: jsstring where
  "DEFAULT_TENANT = lit ''tenant-demo''"

definition buildNamespace :: "env \<Rightarrow> jsstring \<Rightarrow> jsstring" where
  "buildNamespace e tenant = pineconeNamespace e @ lit '':'' @ tenant"

text \<open>\<^verbatim>\<open>xs.join(sep)\<close>.\<close>

fun join :: "jsstring \<Rightarrow> jsstring list \<Rightarrow> jsstring" where
  "join sep [] = []"
| "join sep [x] = x"
| "join sep (x # y # ys) = x @ sep @ join sep (y # ys)"

text \<open>
  The error raised when the documents of a request lie in more than one namespace; the
  specification calls it \<open>InconsistentScope\<close>.
\<close>

definition InconsistentScope :: error where
  "InconsistentScope =
     DocIntelligenceError
       (lit ''Selected documents belong to different namespaces. Please select documents from the same tenant.'')
       400"

text \<open>
  \<^verbatim>\<open>Promise.all\<close> over the fetches: the first failure, or all the results.
\<close>

fun all_results :: "(error + 'a) list \<Rightarrow> error + 'a list" where
  "all_results [] = Inr []"
| "all_results (Inl err # rs) = Inl err"
| "all_results (Inr x # rs) = (case all_results rs of Inl err \<Rightarrow> Inl err | Inr xs \<Rightarrow> Inr (x # xs))"

text \<open>
  \<open>latest\<close> is the outcome of \<open>getLatestDocumentId\<close>, which lists the registry.
  \<open>resolveDocumentContext\<close> returns the document id, the namespace and the tenant;
  the context of an ask request is the triple of namespace, tenant and document ids.
\<close>

definition resolveDocumentContext ::
  "(jsstring \<Rightarrow> error + RegistryMetadata option) \<Rightarrow> error + jsstring option \<Rightarrow>
   jsstring option \<Rightarrow> (error + jsstring \<times> jsstring \<times> jsstring) \<times> effect list" where
  "resolveDocumentContext fetch latest docIdOpt =
     (let selected = (case docIdOpt of Some d \<Rightarrow> (Inr (Some d), []) | None \<Rightarrow> (latest, [RegistryList]));
          nothing = Inl (DocIntelligenceError
                      (lit ''No uploaded document found. Upload a document first.'') 404)
      in case fst selected of
           Inl err \<Rightarrow> (Inl err, snd selected)
         | Inr None \<Rightarrow> (nothing, snd selected)
         | Inr (Some selectedDocumentId) \<Rightarrow>
             (if selectedDocumentId = [] then (nothing, snd selected)
              else
                (let trace = snd selected @ [RegistryFetch (toRegistryId selectedDocumentId)]
                 in case getRegistryItem fetch selectedDocumentId of
                      Inl err \<Rightarrow> (Inl err, trace)
                    | Inr None \<Rightarrow>
                        (Inl (DocIntelligenceError
                           (lit ''Document '' @ [0x27] @ selectedDocumentId @ [0x27]
                            @ lit '' was not found.'') 404), trace)
                    | Inr (Some registryItem) \<Rightarrow>
                        (Inr (selectedDocumentId, namespace registryItem, tenantId registryItem),
                         trace))))"

text \<open>
  In the branch of several ids every id has an item once \<open>missingIds\<close> is empty, so
  \<open>resolved\<close> is not empty where its first element is read.
\<close>

definition resolveAskContext ::
  "(jsstring \<Rightarrow> error + RegistryMetadata option) \<Rightarrow> error + jsstring option \<Rightarrow>
   jsstring option \<Rightarrow> jsstring list option \<Rightarrow>
   (error + jsstring \<times> jsstring \<times> jsstring list) \<times> effect list" where
  "resolveAskContext fetch latest docIdOpt docIdsOpt =
     (let rawIds = filter (\<lambda>i. length i > 0)
                     (map trim (case docIdsOpt of None \<Rightarrow> [] | Some ids \<Rightarrow> ids))
      in if length rawIds > 0
         then
           (let uniqueIds = set_spread rawIds;
                trace = map (\<lambda>i. RegistryFetch (toRegistryId i)) uniqueIds
            in case all_results (map (getRegistryItem fetch) uniqueIds) of
                 Inl err \<Rightarrow> (Inl err, trace)
               | Inr items \<Rightarrow>
                   (let missingIds = map fst (filter (\<lambda>p. snd p = None) (zip uniqueIds items))
                    in if length missingIds > 0
                       then (Inl (DocIntelligenceError
                               (lit ''Document(s) not found: '' @ join (lit '', '') missingIds) 404),
                             trace)
                       else
                         (let resolved = map the (filter (\<lambda>item. item \<noteq> None) items);
                              ns = namespace (hd resolved);
                              tenant = tenantId (hd resolved);
                              allSameNamespace = list_all (\<lambda>item. namespace item = ns) resolved
                          in if \<not> allSameNamespace then (Inl InconsistentScope, trace)
                             else (Inr (ns, tenant, uniqueIds), trace))))
         else
           (case resolveDocumentContext fetch latest docIdOpt of
              (Inl err, trace) \<Rightarrow> (Inl err, trace)
            | (Inr single, trace) \<Rightarrow>
                (Inr (fst (snd single), snd (snd single), [fst single]), trace)))"

text \<open>
  \<open>askDocumentQuestion\<close>. The models run only when the context has been resolved:
  \<open>rewrite_output\<close> and \<open>agent\<close> say what they do then.
\<close>

definition askDocumentQuestion ::
  "env \<Rightarrow> (jsstring \<Rightarrow> error + RegistryMetadata option) \<Rightarrow> error + jsstring option \<Rightarrow>
   jsstring option \<Rightarrow> agent_outcome \<Rightarrow>
   jsstring \<Rightarrow> jsstring option \<Rightarrow> jsstring list option \<Rightarrow>
   (error + AskResponse) \<times> effect list" where
  "askDocumentQuestion e fetch latest rewrite_output agent question0 docIdOpt docIdsOpt =
     (let question = trim question0
      in if length question = 0
         then (Inl (DocIntelligenceError (lit ''Question cannot be empty.'') 400), [])
         else
           (case resolveAskContext fetch latest docIdOpt docIdsOpt of
              (Inl err, trace) \<Rightarrow> (Inl err, trace)
            | (Inr ctx, trace) \<Rightarrow>
                (let run = runRagWorkflow e question (fst ctx) (snd (snd ctx)) rewrite_output agent
                 in (fst run, trace @ snd run))))"

fun is_HybridQuery :: "effect \<Rightarrow> bool" where
  "is_HybridQuery (HybridQuery q ns ids k) = True"
| "is_HybridQuery _ = False"

text \<open>
  The scope of a multi-document request: the distinct non-empty ids, and the registry
  items they resolve to.
\<close>

definition scope_ids :: "jsstring list \<Rightarrow> jsstring list" where
  "scope_ids ids = set_spread (filter (\<lambda>i. i \<noteq> []) (map trim ids))"

definition resolves ::
  "(jsstring \<Rightarrow> error + RegistryMetadata option) \<Rightarrow> jsstring \<Rightarrow> bool" where
  "resolves fetch i = (case getRegistryItem fetch i of Inr (Some item) \<Rightarrow> True | _ \<Rightarrow> False)"

definition resolved_item ::
  "(jsstring \<Rightarrow> error + RegistryMetadata option) \<Rightarrow> jsstring \<Rightarrow> DocumentRegistryItem" where
  "resolved_item fetch i = the (projr (getRegistryItem fetch i))"

definition share_one_namespace :: "DocumentRegistryItem list \<Rightarrow> bool" where
  "share_one_namespace items \<longleftrightarrow> card (namespace ` set items) = 1"

subsection \<open>Upload\<close>

record ParsedDocumentPayload =
  textFull :: jsstring
  markdownFull :: jsstring
  pageTexts :: "(int \<times> jsstring) list"

record UploadResponse =
  up_document_id :: jsstring
  up_file_name :: jsstring
  up_chunk_count :: int
  up_namespace :: jsstring
  up_uploaded_at :: jsstring

text \<open>
  How a write to the vector store ends: it completes, or it raises after some of its
  records (the first \<open>n\<close>) have reached the store.
\<close>

datatype write_outcome = Completed | Failed error nat

text \<open>
  What the surroundings contribute to one upload: the clock, the random document id, the
  outcome of the parsing service for a file that is not plain text, and the outcomes of
  the two writes.
\<close>

record UploadExternals =
  date_now :: int
  iso_now :: jsstring
  uuid :: jsstring
  llama :: "error + ParsedDocumentPayload"
  upsert_outcome :: write_outcome
  save_outcome :: write_outcome

definition SUPPORTED_FILE_TYPES :: "jsstring list" where
  "SUPPORTED_FILE_TYPES = [lit ''pdf'', lit ''docx'', lit ''txt'']"

text \<open>
  \<^verbatim>\<open>fileName.split(".").pop()\<close> is what follows the last dot, or the whole name without
  a dot. \<^verbatim>\<open>toLowerCase\<close> belongs to the host language and is a parameter.
\<close>

definition getExtension :: "(jsstring \<Rightarrow> jsstring) \<Rightarrow> jsstring \<Rightarrow> jsstring" where
  "getExtension toLowerCase name = toLowerCase (rev (takeWhile (\<lambda>c. c \<noteq> 0x2E) (rev name)))"

definition parseFile ::
  "UploadExternals \<Rightarrow> jsstring \<Rightarrow> jsstring \<Rightarrow> error + ParsedDocumentPayload" where
  "parseFile ext extension file_text =
     (if extension = lit ''txt''
      then Inr \<lparr> textFull = file_text, markdownFull = file_text, pageTexts = [(1, file_text)] \<rparr>
      else llama ext)"

text \<open>
  \<open>uploadDocument\<close> up to the call of \<open>createChunksFromPages\<close>: the registry item that
  a successful upload saves, and the chunks.
\<close>

definition prepareUpload ::
  "env \<Rightarrow> (jsstring \<Rightarrow> jsstring) \<Rightarrow> UploadExternals \<Rightarrow> jsstring \<Rightarrow> jsstring \<Rightarrow>
   jsstring option \<Rightarrow> error + DocumentRegistryItem \<times> ChunkRecord list" where
  "prepareUpload e toLowerCase ext file_name file_text tenantOpt =
     (let tenant = (case tenantOpt of
                      None \<Rightarrow> DEFAULT_TENANT
                    | Some t \<Rightarrow> if trim t = [] then DEFAULT_TENANT else trim t);
          name = (if file_name = [] then lit ''upload-'' @ number_string (date_now ext)
                  else file_name);
          extension = getExtension toLowerCase name
      in if extension \<notin> set SUPPORTED_FILE_TYPES
         then Inl (DocIntelligenceError
                (lit ''Unsupported file type '' @ [0x27]
                 @ (if extension = [] then lit ''unknown'' else extension) @ [0x27]
                 @ lit ''. Supported: '' @ join (lit '', '') SUPPORTED_FILE_TYPES @ lit ''.'') 400)
         else
           (case parseFile ext extension file_text of
              Inl err \<Rightarrow> Inl err
            | Inr parsed \<Rightarrow>
                (let fallbackText =
                       (if markdownFull parsed \<noteq> [] then markdownFull parsed else textFull parsed);
                     pages =
                       (if length (pageTexts parsed) > 0 then pageTexts parsed
                        else [(1, if fallbackText \<noteq> [] then fallbackText
                                  else lit ''(empty document)'')]);
                     chunks = createChunksFromPages (uuid ext) tenant name (iso_now ext)
                                pages None None
                 in Inr (\<lparr> documentId = uuid ext, fileName = name, uploadedAt = iso_now ext,
                            namespace = buildNamespace e tenant, tenantId = tenant,
                            chunkCount = int (length chunks) \<rparr>,
                         chunks))))"

definition upsertHybridChunks ::
  "write_outcome \<Rightarrow> ChunkRecord list \<Rightarrow> jsstring \<Rightarrow> error option \<times> effect list" where
  "upsertHybridChunks outcome chunks ns =
     (if length chunks = 0 then (None, [])
      else (case outcome of
              Completed \<Rightarrow> (None, [IndexUpsert ns chunks])
            | Failed err n \<Rightarrow> (Some err, [IndexUpsert ns (take n chunks)])))"

definition saveRegistryItem ::
  "write_outcome \<Rightarrow> DocumentRegistryItem \<Rightarrow> error option \<times> effect list" where
  "saveRegistryItem outcome item =
     (case outcome of
        Completed \<Rightarrow> (None, [RegistryUpsert item])
      | Failed err n \<Rightarrow> (Some err, if n > 0 then [RegistryUpsert item] else []))"

definition uploadDocument ::
  "env \<Rightarrow> (jsstring \<Rightarrow> jsstring) \<Rightarrow> UploadExternals \<Rightarrow> jsstring \<Rightarrow> jsstring \<Rightarrow>
   jsstring option \<Rightarrow> (error + UploadResponse) \<times> effect list" where
  "uploadDocument e toLowerCase ext file_name file_text tenantOpt =
     (case prepareUpload e toLowerCase ext file_name file_text tenantOpt of
        Inl err \<Rightarrow> (Inl err, [])
      | Inr (item, chunks) \<Rightarrow>
          if length chunks = 0
          then (Inl (DocIntelligenceError
                  (lit ''Could not extract usable text from this document.'') 422), [])
          else
            (case upsertHybridChunks (upsert_outcome ext) chunks (namespace item) of
               (Some err, trace) \<Rightarrow> (Inl err, trace)
             | (None, trace) \<Rightarrow>
                 (case saveRegistryItem (save_outcome ext) item of
                    (Some err, trace2) \<Rightarrow> (Inl err, trace @ trace2)
                  | (None, trace2) \<Rightarrow>
                      (Inr \<lparr> up_document_id = documentId item, up_file_name = fileName item,
                             up_chunk_count = int (length chunks),
                             up_namespace = namespace item,
                             up_uploaded_at = uploadedAt item \<rparr>,
                       trace @ trace2))))"

subsection \<open>The vector store\<close>

text \<open>
  The store maps a namespace and a record id to the metadata of the record. The states
  an operation passes through are the store after each prefix of its log.
\<close>

datatype stored = ChunkVector DocumentMetadata | RegistryVector RegistryMetadata

type_synonym store = "jsstring \<times> jsstring \<Rightarrow> stored option"

definition registry_metadata_of :: "DocumentRegistryItem \<Rightarrow> RegistryMetadata" where
  "registry_metadata_of item =
     \<lparr> record_type = lit ''document_registry'', reg_document_id = documentId item,
       reg_file_name = fileName item, reg_uploaded_at = uploadedAt item,
       reg_namespace = namespace item, reg_tenant_id = tenantId item,
       reg_chunk_count = chunkCount item \<rparr>"

definition put_chunk :: "jsstring \<Rightarrow> store \<Rightarrow> ChunkRecord \<Rightarrow> store" where
  "put_chunk ns st c = st((ns, chunk_id c) \<mapsto> ChunkVector (chunk_metadata c))"

fun apply_effect :: "env \<Rightarrow> store \<Rightarrow> effect \<Rightarrow> store" where
  "apply_effect e st (IndexUpsert ns recs) = foldl (put_chunk ns) st recs"
| "apply_effect e st (RegistryUpsert item) =
     st((getRegistryNamespace e, toRegistryId (documentId item))
          \<mapsto> RegistryVector (registry_metadata_of item))"
| "apply_effect e st _ = st"

definition state_after :: "env \<Rightarrow> store \<Rightarrow> effect list \<Rightarrow> nat \<Rightarrow> store" where
  "state_after e st0 trace k = foldl (apply_effect e) st0 (take k trace)"

definition has_registry_entry :: "env \<Rightarrow> store \<Rightarrow> jsstring \<Rightarrow> bool" where
  "has_registry_entry e st docId =
     (case st (getRegistryNamespace e, toRegistryId docId) of
        Some (RegistryVector m) \<Rightarrow> True
      | _ \<Rightarrow> False)"

definition chunk_indexed :: "store \<Rightarrow> jsstring \<Rightarrow> ChunkRecord \<Rightarrow> bool" where
  "chunk_indexed st ns c \<longleftrightarrow> st (ns, chunk_id c) \<noteq> None"



text \<open>The order in which \<open>mergeSources\<close> leaves the pool: descending by score.\<close>

definition sorted_desc :: "SourceSnippet list \<Rightarrow> bool" where
  "sorted_desc pool = sorted (map (\<lambda>s. - score s) pool)"

text \<open>Snippets for the worked examples.\<close>

definition blank_metadata :: DocumentMetadata where
  "blank_metadata =
     \<lparr> document_id = [], tenant_id = [], document_title = [], source_file_name = [],
       uploaded_at = [], page_number = 1, chunk_number = 1, chunk_text = [] \<rparr>"

definition snippet :: "jsstring \<Rightarrow> real \<Rightarrow> SourceSnippet" where
  "snippet i sc = \<lparr> sid = i, score = sc, stext = [], metadata = blank_metadata \<rparr>"

text \<open>
  The invariant of the evidence pool against everything the retrieval calls have returned
  so far: one entry per id, at most \<open>MAX_SOURCES_IN_STATE\<close> entries, every entry is an
  observed snippet that no observation of the same id outscores, and an observed id that
  is absent was displaced from a full pool by entries that score at least as high.
\<close>

definition pool_invariant :: "SourceSnippet list \<Rightarrow> SourceSnippet list \<Rightarrow> bool" where
  "pool_invariant observed pool \<longleftrightarrow>
     distinct (map sid pool)
     \<and> length pool \<le> MAX_SOURCES_IN_STATE
     \<and> (\<forall>s \<in> set pool. s \<in> set observed
            \<and> (\<forall>x \<in> set observed. sid x = sid s \<longrightarrow> score x \<le> score s))
     \<and> (\<forall>x \<in> set observed. sid x \<notin> sid ` set pool \<longrightarrow>
            length pool = MAX_SOURCES_IN_STATE \<and> (\<forall>s \<in> set pool. score x \<le> score s))"

text \<open>The map built by the loop of \<open>mergeSources\<close> over the snippets \<open>seen\<close>.\<close>

definition byId_ok :: "SourceSnippet list \<Rightarrow> (jsstring \<times> SourceSnippet) list \<Rightarrow> bool" where
  "byId_ok seen byId \<longleftrightarrow>
     distinct (map fst byId)
     \<and> (\<forall>k v. map_of byId k = Some v \<longrightarrow> sid v = k \<and> v \<in> set seen)
     \<and> (\<forall>x \<in> set seen. \<exists>v. map_of byId (sid x) = Some v \<and> score x \<le> score v)"

text \<open>
  Three retrieval calls of six snippets each: seventeen ids, the id \<open>[2]\<close> returned twice.
\<close>

definition example_calls :: "SourceSnippet list list" where
  "example_calls = [[snippet [1] 1, snippet [2] 2, snippet [3] 3, snippet [4] 4, snippet [5] 5, snippet [6] 6],
     [snippet [7] 7, snippet [8] 8, snippet [9] 9, snippet [10] 10, snippet [11] 11, snippet [12] 12],
     [snippet [13] 13, snippet [14] 14, snippet [15] 15, snippet [16] 16, snippet [17] 17, snippet [2] 20]]"

definition example_pool :: "SourceSnippet list" where
  "example_pool = [snippet [2] 20, snippet [17] 17, snippet [16] 16, snippet [15] 15, snippet [14] 14, snippet [13] 13, snippet [12] 12, snippet [11] 11, snippet [10] 10, snippet [9] 9, snippet [8] 8, snippet [7] 7, snippet [6] 6, snippet [5] 5, snippet [4] 4, snippet [3] 3]"

text \<open>
  The buffer after a flush, before any hard split: the trimmed last \<open>overlapChars\<close>
  characters of the flushed buffer, the separator and the paragraph, or the paragraph
  alone when nothing is left of the overlap.
\<close>

definition overlap_seed :: "int \<Rightarrow> jsstring \<Rightarrow> jsstring \<Rightarrow> jsstring" where
  "overlap_seed overlapChars buffer paragraph =
     (let tail = trim (drop (length buffer - nat overlapChars) buffer)
      in if tail = [] then paragraph else tail @ PARAGRAPH_SEP @ paragraph)"

text \<open>A buffer and a paragraph of five characters each.\<close>

definition buffer_a :: jsstring where
  "buffer_a = [0x61, 0x61, 0x61, 0x61, 0x61]"

definition paragraph_b :: jsstring where
  "paragraph_b = [0x62, 0x62, 0x62, 0x62, 0x62]"

text \<open>
  The nine string-typed fields, as the model returns them and after normalisation, in
  the order of the type \<open>ShipmentExtraction\<close>.
\<close>

definition raw_string_fields :: "ModelOutput \<Rightarrow> jsval list" where
  "raw_string_fields output =
     [out_shipment_id output, out_shipper output, out_consignee output,
      out_pickup_datetime output, out_delivery_datetime output, out_equipment_type output,
      out_mode output, out_currency output, out_carrier_name output]"

definition string_fields :: "ShipmentExtraction \<Rightarrow> jsstring option list" where
  "string_fields e =
     [shipment_id e, shipper e, consignee e, pickup_datetime e, delivery_datetime e,
      equipment_type e, mode e, currency e, carrier_name e]"

text \<open>A value that is absent, not a string, empty or made of whitespace only.\<close>

definition blank :: "jsval \<Rightarrow> bool" where
  "blank v = (case v of JString s \<Rightarrow> list_all is_js_whitespace s | _ \<Rightarrow> True)"

text \<open>
  A normalised field against the raw value: null exactly for a blank value, and
  otherwise the trimmed string, which is not empty and neither starts nor ends with
  whitespace.
\<close>

definition normalized_field :: "jsval \<Rightarrow> jsstring option \<Rightarrow> bool" where
  "normalized_field raw f =
     (case f of
        None \<Rightarrow> blank raw
      | Some t \<Rightarrow>
          \<not> blank raw \<and> t \<noteq> [] \<and> \<not> is_js_whitespace (hd t) \<and> \<not> is_js_whitespace (last t)
          \<and> (case raw of JString s \<Rightarrow> t = trim s | _ \<Rightarrow> False))"

text \<open>
  A model output with padded, empty, blank, absent and non-string values, and the
  extraction it is normalised to.
\<close>

definition example_output :: ModelOutput where
  "example_output =
     \<lparr> out_shipment_id = JString [0x20, 0x20, 0x41, 0x20], out_shipper = JNull,
       out_consignee = JString [], out_pickup_datetime = JString [0x20, 0x9],
       out_delivery_datetime = JUndefined, out_equipment_type = JNumber 5,
       out_mode = JString [0x42], out_rate = JNumber 100,
       out_currency = JString [0x55, 0x53, 0x44], out_weight = JNull,
       out_carrier_name = JNull, self_assessed_confidence = 1 \<rparr>"

definition example_extraction :: ShipmentExtraction where
  "example_extraction =
     \<lparr> shipment_id = Some [0x41], shipper = None, consignee = None, pickup_datetime = None,
       delivery_datetime = None, equipment_type = None, mode = Some [0x42],
       rate = Some 100, currency = Some [0x55, 0x53, 0x44], weight = None,
       carrier_name = None \<rparr>"

text \<open>
  A registry with the two documents \<open>[0x41]\<close> and \<open>[0x42]\<close>, each in the namespace
  of its tenant.
\<close>

definition example_registry_metadata :: "jsstring \<Rightarrow> jsstring \<Rightarrow> RegistryMetadata" where
  "example_registry_metadata docId tenant =
     \<lparr> record_type = lit ''document_registry'', reg_document_id = docId,
       reg_file_name = [0x66], reg_uploaded_at = [0x74], reg_namespace = lit ''ns:'' @ tenant,
       reg_tenant_id = tenant, reg_chunk_count = 1 \<rparr>"

definition example_fetch ::
  "jsstring \<Rightarrow> jsstring \<Rightarrow> jsstring \<Rightarrow> error + RegistryMetadata option" where
  "example_fetch tenantA tenantB rid =
     (if rid = toRegistryId [0x41] then Inr (Some (example_registry_metadata [0x41] tenantA))
      else if rid = toRegistryId [0x42] then Inr (Some (example_registry_metadata [0x42] tenantB))
      else Inr None)"

text \<open>
  An upload of the file \<^verbatim>\<open>a.txt\<close> in which both writes complete, the item it saves and
  the one chunk of the text \<^verbatim>\<open>hi\<close>.
\<close>

definition example_externals :: UploadExternals where
  "example_externals =
     \<lparr> date_now = 0, iso_now = [0x74], uuid = [0x75], llama = Inl (Error []),
       upsert_outcome = Completed, save_outcome = Completed \<rparr>"

definition example_item :: "int \<Rightarrow> DocumentRegistryItem" where
  "example_item n =
     \<lparr> documentId = [0x75], fileName = lit ''a.txt'', uploadedAt = [0x74],
       namespace = lit ''tenant-demo:tenant-demo'', tenantId = lit ''tenant-demo'',
       chunkCount = n \<rparr>"

definition example_chunk :: ChunkRecord where
  "example_chunk =
     \<lparr> chunk_id = [0x75] @ lit ''#p1c1'', chunk_body = [0x68, 0x69],
       chunk_metadata =
         \<lparr> document_id = [0x75], tenant_id = lit ''tenant-demo'',
           document_title = lit ''a.txt'', source_file_name = lit ''a.txt'',
           uploaded_at = [0x74], page_number = 1, chunk_number = 1,
           chunk_text = [0x68, 0x69] \<rparr> \<rparr>"

section \<open>Extraction confidence\<close>

lemma of_nullable_string_null [simp]: "of_nullable_string x = JNull \<longleftrightarrow> x = None"
  by (cases x) simp_all

lemma of_nullable_number_null [simp]: "of_nullable_number x = JNull \<longleftrightarrow> x = None"
  by (cases x) simp_all

lemma length_Object_values: "length (Object_values e) = 11"
  by (simp add: Object_values_def)

lemma filter_single_length:
  "length (filter P (x # xs)) = (if P x then 1 else 0) + length (filter P xs)"
  by simp

lemma present_count:
  "length (filter (\<lambda>v. v \<noteq> JNull) (Object_values e)) = non_null_field_count e"
  unfolding Object_values_def non_null_field_count_def
  by (simp only: filter_single_length filter.simps(1) list.size(3)
        of_nullable_string_null of_nullable_number_null not_not) simp


section \<open>Confidence and guardrail of the answering workflow\<close>


lemma roundTo_idem: "roundTo (roundTo x) = roundTo x"
  by (simp add: roundTo_def roundTo_decimals_def)

lemma roundTo_035: "roundTo 0.35 = 0.35"
  by (simp add: roundTo_def roundTo_decimals_def round_def)

lemma roundTo_min_fixed: "roundTo (min (roundTo x) 0.35) = min (roundTo x) 0.35"
proof (cases "roundTo x \<le> 0.35")
  case True
  then show ?thesis by (simp only: min_absorb1 roundTo_idem)
next
  case False
  then have "min (roundTo x) 0.35 = 0.35" by simp
  then show ?thesis by (simp only: roundTo_035)
qed

lemma roundTo_mono: "x \<le> y \<Longrightarrow> roundTo x \<le> roundTo y"
  by (simp add: roundTo_def roundTo_decimals_def round_mono divide_right_mono)

lemma clamp_mono: "x \<le> y \<Longrightarrow> clamp x lo hi \<le> clamp y lo hi"
  by (simp add: clamp_def)


lemma sorted_desc_mergeSources: "sorted_desc (mergeSources a b n)"
  by (simp add: sorted_desc_def mergeSources_def Let_def take_map[symmetric])

lemma gather_snoc: "gather (rs @ [r]) = retrieve_step (gather rs) r"
  by (simp add: gather_def)

lemma sorted_desc_gather: "sorted_desc (gather rs)"
proof (cases rs rule: rev_cases)
  case Nil
  then show ?thesis by (simp add: gather_def sorted_desc_def)
next
  case (snoc ys y)
  then show ?thesis by (simp add: gather_snoc retrieve_step_def sorted_desc_mergeSources)
qed

lemma sorted_desc_top: "sorted_desc pool \<Longrightarrow> s \<in> set pool \<Longrightarrow> score s \<le> topScore_of pool"
  by (cases pool) (auto simp: sorted_desc_def topScore_of_def)

lemma topScore_in_pool: "pool \<noteq> [] \<Longrightarrow> topScore_of pool \<in> score ` set pool"
  by (cases pool) (auto simp: topScore_of_def)

lemma topScore_is_Max:
  assumes "sorted_desc pool" "pool \<noteq> []"
  shows "topScore_of pool = Max (score ` set pool)"
proof -
  have "Max (score ` set pool) = topScore_of pool"
  proof (rule Max_eqI)
    show "finite (score ` set pool)" by simp
    show "\<And>y. y \<in> score ` set pool \<Longrightarrow> y \<le> topScore_of pool"
      using assms(1) sorted_desc_top by auto
    show "topScore_of pool \<in> score ` set pool" using assms(2) by (rule topScore_in_pool)
  qed
  then show ?thesis by simp
qed








text \<open>
  C6. With the agreement signal and the citation signal held fixed, a larger top score
  within \<open>[0, 2.5]\<close> never gives a smaller confidence.
\<close>

theorem confidence_monotone:
  assumes "agreementSignal p1 = agreementSignal p2"
    and "citationSignal p1 c1 = citationSignal p2 c2"
    and "0 \<le> topScore_of p1" and "topScore_of p1 \<le> topScore_of p2"
    and "topScore_of p2 \<le> 2.5"
  shows "calculateConfidence p1 c1 \<le> calculateConfidence p2 c2"
proof -
  have "topScore_of p1 / 2.5 \<le> topScore_of p2 / 2.5"
    using assms(4) by (simp add: divide_right_mono)
  then have "retrievalSignal p1 \<le> retrievalSignal p2"
    unfolding retrievalSignal_def by (rule clamp_mono)
  then have "0.6 * retrievalSignal p1 + 0.25 * agreementSignal p1 + 0.15 * citationSignal p1 c1
      \<le> 0.6 * retrievalSignal p2 + 0.25 * agreementSignal p2 + 0.15 * citationSignal p2 c2"
    using assms(1,2) by simp
  then show ?thesis unfolding calculateConfidence_def by (rule roundTo_mono)
qed


lemma snippet_sel [simp]: "sid (snippet i sc) = i" "score (snippet i sc) = sc"
  by (simp_all add: snippet_def)


lemma gather_ex2: "gather [[snippet [0x61] 0.5, snippet [0x62] 0.81], [snippet [0x61] 0.9]] = [snippet [0x61] 0.9, snippet [0x62] 0.81]"
  by (simp add: gather_def retrieve_step_def mergeSources_def merge_step_def MAX_SOURCES_IN_STATE_def)



lemma floor_gate_condition:
  "(length (gather rs) = 0 \<or> topScore_of (gather rs) < t) \<longleftrightarrow>
   (gather rs = [] \<or> Max (score ` set (gather rs)) < t)"
proof (cases "gather rs = []")
  case True
  then show ?thesis by simp
next
  case False
  then have "topScore_of (gather rs) = Max (score ` set (gather rs))"
    by (rule topScore_is_Max [OF sorted_desc_gather])
  with False show ?thesis by simp
qed

text \<open>
  C1. When the agent has returned and the pool is empty, or its highest score is below
  \<open>guardrailMinTopScore\<close>, the answer is the sentinel, the confidence is 0 and the
  guardrail is \<open>not_found\<close>, whatever the structured response says.
\<close>

theorem retrieval_floor_gate:
  assumes "requireEnv_openAiApiKey e = None"
    and "gather (map snd calls) = []
         \<or> Max (score ` set (gather (map snd calls))) < guardrailMinTopScore e"
  shows "fst (runRagWorkflow e question ns documentIds rewrite_output
                (AgentReturned calls structuredResponse)) =
         Inr \<lparr> resp_document_id = first_or_empty documentIds,
               resp_document_ids = documentIds,
               resp_answer = NOT_FOUND_ANSWER,
               confidence = 0,
               guardrail = G_not_found,
               rewritten_query = rewriteQuestion question rewrite_output,
               sources = gather (map snd calls) \<rparr>"
proof -
  have "length (gather (map snd calls)) = 0
      \<or> topScore_of (gather (map snd calls)) < guardrailMinTopScore e"
    using assms(2) by (simp only: floor_gate_condition)
  then show ?thesis
    by (simp add: runRagWorkflow_def assms(1) Let_def)
qed

text \<open>
  C3. Past the retrieval floor, a structured response with \<open>not_found\<close> set or
  \<open>grounded\<close> unset gives the sentinel answer, the guardrail \<open>not_found\<close> and the
  confidence \<open>min(computed confidence, 0.35)\<close>, however high the computed confidence.
\<close>

theorem grounding_gate:
  assumes "requireEnv_openAiApiKey e = None"
    and "gather (map snd calls) \<noteq> []"
    and "\<not> Max (score ` set (gather (map snd calls))) < guardrailMinTopScore e"
    and "not_found s \<or> \<not> grounded s"
  shows "fst (runRagWorkflow e question ns documentIds rewrite_output
                (AgentReturned calls (Some s))) =
         Inr \<lparr> resp_document_id = first_or_empty documentIds,
               resp_document_ids = documentIds,
               resp_answer = NOT_FOUND_ANSWER,
               confidence = min (calculateConfidence (gather (map snd calls)) (cited_chunk_ids s)) 0.35,
               guardrail = G_not_found,
               rewritten_query = rewriteQuestion question rewrite_output,
               sources = gather (map snd calls) \<rparr>"
proof -
  have "\<not> (length (gather (map snd calls)) = 0
      \<or> topScore_of (gather (map snd calls)) < guardrailMinTopScore e)"
    using assms(2,3) by (simp only: floor_gate_condition) simp
  moreover have "roundTo (min (calculateConfidence (gather (map snd calls)) (cited_chunk_ids s)) 0.35)
      = min (calculateConfidence (gather (map snd calls)) (cited_chunk_ids s)) 0.35"
    unfolding calculateConfidence_def by (rule roundTo_min_fixed)
  ultimately show ?thesis
    using assms(4) by (simp add: runRagWorkflow_def assms(1) Let_def)
qed


lemma default_env_key: "requireEnv_openAiApiKey (default_env [0x6B]) = None"
  by (simp add: requireEnv_openAiApiKey_def default_env_def)

lemma gather_ex3: "gather (map snd [([0x71], [snippet [0x61] 0.5])]) = [snippet [0x61] 0.5]"
  by (simp add: gather_def retrieve_step_def mergeSources_def merge_step_def MAX_SOURCES_IN_STATE_def)

lemma gather_ex4:
  "gather (map snd [([0x71], [snippet [0x61] 2.5, snippet [0x62] 2.5])])
     = [snippet [0x61] 2.5, snippet [0x62] 2.5]"
  by (simp add: gather_def retrieve_step_def mergeSources_def merge_step_def MAX_SOURCES_IN_STATE_def)

theorem retrieval_floor_gate_witness:
  "requireEnv_openAiApiKey (default_env [0x6B]) = None
   \<and> (gather (map snd [([0x71], [snippet [0x61] 0.5])]) = []
        \<or> Max (score ` set (gather (map snd [([0x71], [snippet [0x61] 0.5])])))
            < guardrailMinTopScore (default_env [0x6B]))
   \<and> fst (runRagWorkflow (default_env [0x6B]) [0x71] [0x6E] [[0x64]] None
          (AgentReturned [([0x71], [snippet [0x61] 0.5])]
             (Some \<lparr> answer = [0x78], grounded = True, not_found = False,
                      cited_chunk_ids = [[0x61]] \<rparr>))) =
       Inr \<lparr> resp_document_id = [0x64], resp_document_ids = [[0x64]],
             resp_answer = NOT_FOUND_ANSWER, confidence = 0, guardrail = G_not_found,
             rewritten_query = [0x71], sources = [snippet [0x61] 0.5] \<rparr>"
proof -
  have h: "gather (map snd [([0x71], [snippet [0x61] 0.5])]) = []
        \<or> Max (score ` set (gather (map snd [([0x71], [snippet [0x61] 0.5])])))
            < guardrailMinTopScore (default_env [0x6B])"
    by (simp only: gather_ex3) (simp add: default_env_def)
  from retrieval_floor_gate [OF default_env_key h] default_env_key h show ?thesis
    by (simp only: gather_ex3) (simp add: first_or_empty_def rewriteQuestion_def)
qed

theorem grounding_gate_witness:
  "requireEnv_openAiApiKey (default_env [0x6B]) = None
   \<and> gather (map snd [([0x71], [snippet [0x61] 2.5, snippet [0x62] 2.5])]) \<noteq> []
   \<and> \<not> Max (score ` set (gather (map snd [([0x71], [snippet [0x61] 2.5, snippet [0x62] 2.5])])))
            < guardrailMinTopScore (default_env [0x6B])
   \<and> calculateConfidence (gather (map snd [([0x71], [snippet [0x61] 2.5, snippet [0x62] 2.5])]))
         [[0x61]] > guardrailCautionConfidence (default_env [0x6B])
   \<and> fst (runRagWorkflow (default_env [0x6B]) [0x71] [0x6E] [[0x64]] None
          (AgentReturned [([0x71], [snippet [0x61] 2.5, snippet [0x62] 2.5])]
             (Some \<lparr> answer = [0x78], grounded = True, not_found = True,
                      cited_chunk_ids = [[0x61]] \<rparr>))) =
       Inr \<lparr> resp_document_id = [0x64], resp_document_ids = [[0x64]],
             resp_answer = NOT_FOUND_ANSWER, confidence = 0.35, guardrail = G_not_found,
             rewritten_query = [0x71],
             sources = [snippet [0x61] 2.5, snippet [0x62] 2.5] \<rparr>"
proof -
  let ?calls = "[([0x71], [snippet [0x61] 2.5, snippet [0x62] 2.5])] :: (jsstring \<times> SourceSnippet list) list"
  let ?s = "\<lparr> answer = [0x78], grounded = True, not_found = True,
              cited_chunk_ids = [[0x61]] \<rparr> :: AgentAnswer"
  have ne: "gather (map snd ?calls) \<noteq> []"
    by (simp only: gather_ex4) simp
  have top: "\<not> Max (score ` set (gather (map snd ?calls))) < guardrailMinTopScore (default_env [0x6B])"
    by (simp only: gather_ex4) (simp add: default_env_def)
  have flag: "not_found ?s \<or> \<not> grounded ?s" by simp
  have v: "calculateConfidence (gather (map snd ?calls)) [[0x61]] = 1"
    by (simp only: gather_ex4)
       (simp add: calculateConfidence_def retrievalSignal_def agreementSignal_def citationSignal_def
        validCitations_def topScore_of_def secondScore_of_def clamp_def roundTo_def
        roundTo_decimals_def round_def)
  from grounding_gate [OF default_env_key ne top flag, of "[0x71]" "[0x6E]" "[[0x64]]" None]
    default_env_key ne top v
  show ?thesis
    by (simp only: gather_ex4) (simp add: first_or_empty_def rewriteQuestion_def default_env_def)
qed

theorem confidence_monotone_witness:
  "agreementSignal [snippet [0x61] 1, snippet [0x62] 0.5]
     = agreementSignal [snippet [0x61] 2, snippet [0x62] 1]
   \<and> citationSignal [snippet [0x61] 1, snippet [0x62] 0.5] [[0x61]]
     = citationSignal [snippet [0x61] 2, snippet [0x62] 1] [[0x61]]
   \<and> 0 \<le> topScore_of [snippet [0x61] 1, snippet [0x62] 0.5]
   \<and> topScore_of [snippet [0x61] 1, snippet [0x62] 0.5]
       \<le> topScore_of [snippet [0x61] 2, snippet [0x62] 1]
   \<and> topScore_of [snippet [0x61] 2, snippet [0x62] 1] \<le> 2.5
   \<and> calculateConfidence [snippet [0x61] 1, snippet [0x62] 0.5] [[0x61]]
       \<le> calculateConfidence [snippet [0x61] 2, snippet [0x62] 1] [[0x61]]"
proof -
  have a: "agreementSignal [snippet [0x61] 1, snippet [0x62] 0.5]
     = agreementSignal [snippet [0x61] 2, snippet [0x62] 1]"
    by (simp add: agreementSignal_def topScore_of_def secondScore_of_def clamp_def)
  have c: "citationSignal [snippet [0x61] 1, snippet [0x62] 0.5] [[0x61]]
     = citationSignal [snippet [0x61] 2, snippet [0x62] 1] [[0x61]]"
    by (simp add: citationSignal_def validCitations_def)
  have t: "0 \<le> topScore_of [snippet [0x61] 1, snippet [0x62] 0.5]"
    "topScore_of [snippet [0x61] 1, snippet [0x62] 0.5]
       \<le> topScore_of [snippet [0x61] 2, snippet [0x62] 1]"
    "topScore_of [snippet [0x61] 2, snippet [0x62] 1] \<le> 2.5"
    by (simp_all add: topScore_of_def)
  from confidence_monotone [OF a c t] a c t show ?thesis by blast
qed

section \<open>The evidence pool under merges\<close>

subsection \<open>The map of \<open>mergeSources\<close>\<close>

lemma map_of_Map_set: "map_of (Map_set k v m) = (map_of m)(k \<mapsto> v)"
  by (induction m) (auto simp: fun_eq_iff)

lemma keys_Map_set: "set (map fst (Map_set k v m)) = insert k (set (map fst m))"
  by (induction m) auto

lemma distinct_Map_set: "distinct (map fst m) \<Longrightarrow> distinct (map fst (Map_set k v m))"
  by (induction m) (auto simp: keys_Map_set simp del: set_map)

lemma merge_step_cases:
  obtains (replaced) "merge_step byId x = Map_set (sid x) x byId"
      "\<And>c. map_of byId (sid x) = Some c \<Longrightarrow> score c < score x"
  | (kept) c where "merge_step byId x = byId" "map_of byId (sid x) = Some c" "score x \<le> score c"
proof (cases "map_of byId (sid x)")
  case None
  then show ?thesis using replaced by (simp add: merge_step_def)
next
  case (Some current)
  show ?thesis
  proof (cases "score x > score current")
    case True
    then show ?thesis using replaced Some by (simp add: merge_step_def)
  next
    case False
    then show ?thesis using kept [of current] Some by (simp add: merge_step_def)
  qed
qed

lemma merge_step_distinct:
  "distinct (map fst byId) \<Longrightarrow> distinct (map fst (merge_step byId x))"
  by (cases byId x rule: merge_step_cases) (simp_all add: distinct_Map_set)

lemma merge_step_origin:
  assumes "map_of (merge_step byId x) k = Some v"
  shows "(k = sid x \<and> v = x) \<or> map_of byId k = Some v"
proof (cases byId x rule: merge_step_cases)
  case replaced
  with assms show ?thesis by (simp add: map_of_Map_set split: if_splits)
next
  case (kept c)
  with assms show ?thesis by simp
qed

lemma merge_step_new:
  "\<exists>v. map_of (merge_step byId x) (sid x) = Some v \<and> score x \<le> score v"
proof (cases byId x rule: merge_step_cases)
  case replaced
  then show ?thesis by (simp add: map_of_Map_set)
next
  case (kept c)
  then show ?thesis by simp
qed

lemma merge_step_old:
  assumes "map_of byId k = Some v"
  shows "\<exists>v'. map_of (merge_step byId x) k = Some v' \<and> score v \<le> score v'"
proof (cases byId x rule: merge_step_cases)
  case replaced
  show ?thesis
  proof (cases "k = sid x")
    case True
    with assms replaced(2) have "score v < score x" by simp
    with True replaced(1) show ?thesis by (simp add: map_of_Map_set)
  next
    case False
    with assms replaced(1) show ?thesis by (simp add: map_of_Map_set)
  qed
next
  case (kept c)
  with assms show ?thesis by simp
qed

lemma byId_ok_step:
  assumes "byId_ok seen byId"
  shows "byId_ok (seen @ [x]) (merge_step byId x)"
proof -
  from assms have d: "distinct (map fst byId)"
    and o: "\<And>k v. map_of byId k = Some v \<Longrightarrow> sid v = k \<and> v \<in> set seen"
    and c: "\<And>y. y \<in> set seen \<Longrightarrow> \<exists>v. map_of byId (sid y) = Some v \<and> score y \<le> score v"
    unfolding byId_ok_def by blast+
  have 1: "distinct (map fst (merge_step byId x))"
    using d by (rule merge_step_distinct)
  have 2: "sid v = k \<and> v \<in> set (seen @ [x])" if "map_of (merge_step byId x) k = Some v" for k v
    using merge_step_origin [OF that] o [of k v] by auto
  have 3: "\<exists>v. map_of (merge_step byId x) (sid y) = Some v \<and> score y \<le> score v"
    if "y \<in> set (seen @ [x])" for y
  proof (cases "y = x")
    case True
    then show ?thesis using merge_step_new [of byId x] by simp
  next
    case False
    with that have "y \<in> set seen" by simp
    from c [OF this] obtain v where v: "map_of byId (sid y) = Some v" "score y \<le> score v"
      by blast
    from merge_step_old [OF v(1), of x] obtain v'
      where "map_of (merge_step byId x) (sid y) = Some v'" "score v \<le> score v'" by blast
    with v(2) show ?thesis by (intro exI [of _ v']) simp
  qed
  show ?thesis unfolding byId_ok_def using 1 2 3 by blast
qed

lemma byId_ok_foldl: "byId_ok xs (foldl merge_step [] xs)"
proof (induction xs rule: rev_induct)
  case Nil
  show ?case by (simp add: byId_ok_def)
next
  case (snoc x xs)
  then show ?case by (simp add: byId_ok_step)
qed

subsection \<open>The values of the map\<close>

lemma byId_values_sid:
  assumes "byId_ok seen byId"
  shows "map sid (map snd byId) = map fst byId"
proof -
  have "sid (snd p) = fst p" if "p \<in> set byId" for p
  proof -
    from assms have d: "distinct (map fst byId)" by (simp add: byId_ok_def)
    from that have "(fst p, snd p) \<in> set byId" by simp
    with d have "map_of byId (fst p) = Some (snd p)" by (rule map_of_is_SomeI)
    with assms show ?thesis unfolding byId_ok_def by blast
  qed
  then show ?thesis by simp
qed

lemma byId_values_distinct:
  assumes "byId_ok seen byId"
  shows "distinct (map sid (map snd byId))"
  using assms byId_values_sid [OF assms] by (simp only: byId_ok_def)

lemma byId_values_mem:
  assumes "byId_ok seen byId"
  shows "v \<in> set (map snd byId) \<longleftrightarrow> map_of byId (sid v) = Some v"
proof
  assume "v \<in> set (map snd byId)"
  then obtain k where kv: "(k, v) \<in> set byId" by auto
  from assms have d: "distinct (map fst byId)" by (simp add: byId_ok_def)
  from d kv have m: "map_of byId k = Some v" by (rule map_of_is_SomeI)
  with assms have "sid v = k" unfolding byId_ok_def by blast
  with m show "map_of byId (sid v) = Some v" by simp
next
  assume "map_of byId (sid v) = Some v"
  then have "(sid v, v) \<in> set byId" by (rule map_of_SomeD)
  then show "v \<in> set (map snd byId)" by force
qed

lemma byId_values_max:
  assumes "byId_ok seen byId" "v \<in> set (map snd byId)"
  shows "v \<in> set seen" and "\<And>x. x \<in> set seen \<Longrightarrow> sid x = sid v \<Longrightarrow> score x \<le> score v"
proof -
  from assms have m: "map_of byId (sid v) = Some v" by (simp only: byId_values_mem)
  with assms(1) show "v \<in> set seen" unfolding byId_ok_def by blast
  fix x assume x: "x \<in> set seen" "sid x = sid v"
  with assms(1) obtain v' where "map_of byId (sid x) = Some v'" "score x \<le> score v'"
    unfolding byId_ok_def by blast
  with m x(2) show "score x \<le> score v" by simp
qed

lemma byId_values_cover:
  assumes "byId_ok seen byId" "x \<in> set seen"
  shows "\<exists>v \<in> set (map snd byId). sid v = sid x \<and> score x \<le> score v"
proof -
  from assms obtain v where v: "map_of byId (sid x) = Some v" "score x \<le> score v"
    unfolding byId_ok_def by blast
  from assms(1) v(1) have "sid v = sid x" unfolding byId_ok_def by blast
  moreover from this v(1) assms(1) have "v \<in> set (map snd byId)"
    by (simp only: byId_values_mem)
  ultimately show ?thesis using v(2) by blast
qed

subsection \<open>Sorting by descending score and keeping the first entries\<close>

lemma top_subset: "set (take n (sort_key (\<lambda>s. - score s) vs)) \<subseteq> set vs"
  using set_take_subset [of n "sort_key (\<lambda>s. - score s) vs"] by simp

lemma top_distinct:
  assumes "distinct (map sid vs)"
  shows "distinct (map sid (take n (sort_key (\<lambda>s. - score s) vs)))"
proof -
  have "mset (map sid (sort_key (\<lambda>s. - score s) vs)) = mset (map sid vs)"
    by simp
  then have "distinct (map sid (sort_key (\<lambda>s. - score s) vs))"
    using assms by (metis mset_eq_imp_distinct_iff)
  then show ?thesis by (simp only: take_map [symmetric] distinct_take)
qed

lemma top_evicted:
  assumes "v \<in> set vs" "v \<notin> set (take n (sort_key (\<lambda>s. - score s) vs))"
  shows "length (take n (sort_key (\<lambda>s. - score s) vs)) = n"
    and "\<And>s. s \<in> set (take n (sort_key (\<lambda>s. - score s) vs)) \<Longrightarrow> score v \<le> score s"
proof -
  let ?srt = "sort_key (\<lambda>s. - score s) vs"
  have split: "?srt = take n ?srt @ drop n ?srt" by simp
  from assms(1) have "v \<in> set ?srt" by simp
  then have "v \<in> set (take n ?srt) \<or> v \<in> set (drop n ?srt)"
    by (metis split set_append Un_iff)
  with assms(2) have vd: "v \<in> set (drop n ?srt)" by blast
  then have "drop n ?srt \<noteq> []" by auto
  then show "length (take n ?srt) = n" by simp
  fix s assume s: "s \<in> set (take n ?srt)"
  have "sorted (map (\<lambda>s. - score s) (take n ?srt @ drop n ?srt))"
    by (simp only: append_take_drop_id) simp
  then have "\<forall>a \<in> set (take n ?srt). \<forall>b \<in> set (drop n ?srt). - score a \<le> - score b"
    by (simp only: map_append sorted_append) auto
  with s vd show "score v \<le> score s" by auto
qed

lemma top_rank:
  assumes "s \<in> set (take n (sort_key (\<lambda>s. - score s) vs))"
  shows "length (filter (\<lambda>v. score s < score v) vs) < n"
proof -
  let ?srt = "sort_key (\<lambda>s. - score s) vs"
  let ?P = "\<lambda>v. score s < score v"
  from assms obtain i where i: "i < length (take n ?srt)" "take n ?srt ! i = s"
    by (auto simp: in_set_conv_nth)
  then have il: "i < n" "i < length ?srt" "?srt ! i = s" by simp_all
  have "sorted (map (\<lambda>s. - score s) (take i ?srt @ drop i ?srt))"
    by (simp only: append_take_drop_id) simp
  then have ord: "\<forall>a \<in> set (take i ?srt). \<forall>b \<in> set (drop i ?srt). - score a \<le> - score b"
    and sd: "sorted (map (\<lambda>s. - score s) (drop i ?srt))"
    by (simp_all only: map_append sorted_append) auto
  have "drop i ?srt = s # drop (Suc i) ?srt"
    using Cons_nth_drop_Suc [OF il(2)] il(3) by simp
  with sd have "\<forall>b \<in> set (drop i ?srt). - score s \<le> - score b"
    by auto
  then have "filter ?P (drop i ?srt) = []"
    by (auto simp: filter_empty_conv)
  then have "filter ?P ?srt = filter ?P (take i ?srt)"
    by (metis append_take_drop_id filter_append append_Nil2)
  then have "length (filter ?P ?srt) \<le> i"
    using il(2) by (metis length_filter_le length_take min.absorb2 less_imp_le)
  moreover have "length (filter ?P ?srt) = length (filter ?P vs)"
    by (simp add: filter_sort)
  ultimately show ?thesis using il(1) by simp
qed

lemma count_covered:
  assumes "distinct (map sid pool)"
    and "\<And>p. p \<in> set pool \<Longrightarrow> \<exists>v \<in> set vs. sid v = sid p \<and> P v"
  shows "length pool \<le> length (filter P vs)"
proof -
  have sub: "sid ` set pool \<subseteq> sid ` set (filter P vs)"
  proof
    fix k assume "k \<in> sid ` set pool"
    then obtain p where p: "p \<in> set pool" "k = sid p" by blast
    from assms(2) [OF p(1)] obtain v where "v \<in> set vs" "sid v = sid p" "P v" by blast
    then have "v \<in> set (filter P vs)" by simp
    with \<open>sid v = sid p\<close> p(2) show "k \<in> sid ` set (filter P vs)" by force
  qed
  have "length pool = card (set (map sid pool))"
    using distinct_card [OF assms(1)] by simp
  also have "\<dots> = card (sid ` set pool)" by simp
  also have "\<dots> \<le> card (sid ` set (filter P vs))"
    by (rule card_mono [OF _ sub]) simp
  also have "\<dots> \<le> card (set (filter P vs))" by (rule card_image_le) simp
  also have "\<dots> \<le> length (filter P vs)" by (rule card_length)
  finally show ?thesis .
qed

subsection \<open>One merge keeps the invariant\<close>

lemma pool_invariant_step:
  assumes inv: "pool_invariant observed pool"
  shows "pool_invariant (observed @ incoming) (retrieve_step pool incoming)"
proof -
  let ?L = MAX_SOURCES_IN_STATE
  let ?seen = "pool @ incoming"
  let ?byId = "foldl merge_step [] ?seen"
  let ?vs = "map snd ?byId"
  let ?pool' = "take ?L (sort_key (\<lambda>s. - score s) ?vs)"
  have eq: "retrieve_step pool incoming = ?pool'"
    by (simp add: retrieve_step_def mergeSources_def)
  have ok: "byId_ok ?seen ?byId" by (rule byId_ok_foldl)
  from inv have pd: "distinct (map sid pool)"
    and pc: "\<And>p. p \<in> set pool \<Longrightarrow> p \<in> set observed"
    and pm: "\<And>p x. p \<in> set pool \<Longrightarrow> x \<in> set observed \<Longrightarrow> sid x = sid p \<Longrightarrow> score x \<le> score p"
    and pe: "\<And>x. x \<in> set observed \<Longrightarrow> sid x \<notin> sid ` set pool \<Longrightarrow>
               length pool = ?L \<and> (\<forall>p \<in> set pool. score x \<le> score p)"
    unfolding pool_invariant_def by blast+
  have sub: "set ?pool' \<subseteq> set ?vs" by (rule top_subset)
  \<comment> \<open>every entry of the old pool is covered by a value that scores at least as high\<close>
  have cover: "\<exists>v \<in> set ?vs. sid v = sid y \<and> score y \<le> score v" if "y \<in> set ?seen" for y
    using ok that by (rule byId_values_cover)
  have full: "length pool = ?L \<Longrightarrow> (\<And>p. p \<in> set pool \<Longrightarrow> c \<le> score p) \<Longrightarrow>
      s \<in> set ?pool' \<Longrightarrow> c \<le> score s" for c s
  proof (rule ccontr)
    assume len: "length pool = ?L" and lo: "\<And>p. p \<in> set pool \<Longrightarrow> c \<le> score p"
      and s: "s \<in> set ?pool'" and "\<not> c \<le> score s"
    then have lt: "score s < c" by simp
    have "length pool \<le> length (filter (\<lambda>v. score s < score v) ?vs)"
    proof (rule count_covered [OF pd])
      fix p assume p: "p \<in> set pool"
      then have "p \<in> set ?seen" by simp
      from cover [OF this] obtain v where v: "v \<in> set ?vs" "sid v = sid p" "score p \<le> score v"
        by blast
      from lo [OF p] lt v(3) have "score s < score v" by simp
      with v show "\<exists>v \<in> set ?vs. sid v = sid p \<and> score s < score v" by blast
    qed
    moreover have "length (filter (\<lambda>v. score s < score v) ?vs) < ?L"
      using s by (rule top_rank)
    ultimately show False using len by simp
  qed
  have 1: "distinct (map sid ?pool')"
    by (rule top_distinct) (rule byId_values_distinct [OF ok])
  have 2: "length ?pool' \<le> ?L" by simp
  have 3: "s \<in> set (observed @ incoming)" if "s \<in> set ?pool'" for s
  proof -
    from that sub have "s \<in> set ?vs" by blast
    with ok have "s \<in> set ?seen" by (rule byId_values_max(1))
    then show ?thesis using pc by auto
  qed
  have 4: "score x \<le> score s"
    if s: "s \<in> set ?pool'" and x: "x \<in> set (observed @ incoming)" and same: "sid x = sid s" for s x
  proof -
    from s sub have sv: "s \<in> set ?vs" by blast
    note mx = byId_values_max(2) [OF ok sv]
    show ?thesis
    proof (cases "x \<in> set ?seen")
      case True
      then show ?thesis using same by (rule mx)
    next
      case False
      with x have xo: "x \<in> set observed" by auto
      show ?thesis
      proof (cases "sid x \<in> sid ` set pool")
        case True
        then obtain p where p: "p \<in> set pool" "sid p = sid x" by force
        from pm [OF p(1) xo] p(2) have "score x \<le> score p" by simp
        moreover have "score p \<le> score s"
          using p same by (intro mx) simp_all
        ultimately show ?thesis by simp
      next
        case False
        from pe [OF xo False] have "length pool = ?L" "\<And>p. p \<in> set pool \<Longrightarrow> score x \<le> score p"
          by blast+
        then show ?thesis using s by (rule full)
      qed
    qed
  qed
  have 5: "length ?pool' = ?L \<and> (\<forall>s \<in> set ?pool'. score x \<le> score s)"
    if x: "x \<in> set (observed @ incoming)" and out: "sid x \<notin> sid ` set ?pool'" for x
  proof (cases "\<exists>y \<in> set ?seen. sid y = sid x \<and> score x \<le> score y")
    case True
    then obtain y where y: "y \<in> set ?seen" "sid y = sid x" "score x \<le> score y" by blast
    from cover [OF y(1)] obtain v where v: "v \<in> set ?vs" "sid v = sid y" "score y \<le> score v"
      by blast
    have nv: "v \<notin> set ?pool'"
    proof
      assume "v \<in> set ?pool'"
      then have "sid v \<in> sid ` set ?pool'" by (rule imageI)
      with v(2) y(2) out show False by simp
    qed
    from top_evicted [OF v(1) nv] y(3) v(3) show ?thesis by force
  next
    case False
    have xo: "x \<in> set observed"
    proof (rule ccontr)
      assume "x \<notin> set observed"
      with x have "x \<in> set ?seen" by auto
      with False show False by force
    qed
    have np: "sid x \<notin> sid ` set pool"
    proof
      assume "sid x \<in> sid ` set pool"
      then obtain p where p: "p \<in> set pool" "sid p = sid x" by force
      from pm [OF p(1) xo] p(2) have "score x \<le> score p" by simp
      with p False show False by force
    qed
    from pe [OF xo np] have len: "length pool = ?L"
      and lo: "\<And>p. p \<in> set pool \<Longrightarrow> score x \<le> score p" by blast+
    have "length pool \<le> length (filter (\<lambda>v. True) ?vs)"
    proof (rule count_covered [OF pd])
      fix p assume "p \<in> set pool"
      then have "p \<in> set ?seen" by simp
      from cover [OF this] show "\<exists>v \<in> set ?vs. sid v = sid p \<and> True" by blast
    qed
    then have "?L \<le> length ?vs" using len by simp
    then have "length ?pool' = ?L" by simp
    moreover have "\<forall>s \<in> set ?pool'. score x \<le> score s"
      using full [OF len lo] by blast
    ultimately show ?thesis by blast
  qed
  show ?thesis
    unfolding pool_invariant_def eq using 1 2 3 4 5 by blast
qed

lemma pool_invariant_gather: "pool_invariant (concat results) (gather results)"
proof (induction results rule: rev_induct)
  case Nil
  show ?case by (simp add: pool_invariant_def gather_def)
next
  case (snoc r rs)
  then show ?case by (simp add: gather_snoc pool_invariant_step)
qed

lemma gather_example: "gather example_calls = example_pool"
  unfolding example_calls_def example_pool_def
  by (simp add: gather_def retrieve_step_def mergeSources_def merge_step_def MAX_SOURCES_IN_STATE_def)

lemma gather_same_id_twice:
  assumes "sid a = sid b"
  shows "map (\<lambda>s. (sid s, score s)) (gather [[a], [b]]) = [(sid a, max (score a) (score b))]"
proof (cases "score a < score b")
  case True
  with assms show ?thesis
    by (simp add: gather_def retrieve_step_def mergeSources_def merge_step_def
        MAX_SOURCES_IN_STATE_def max_def)
next
  case False
  with assms show ?thesis
    by (simp add: gather_def retrieve_step_def mergeSources_def merge_step_def
        MAX_SOURCES_IN_STATE_def max_def)
qed

text \<open>
  C4. After any sequence of merges the pool holds at most one entry per id and at most
  16 entries; every entry was observed and no observation of its id scored higher; an
  observed id that is absent from the pool was evicted from a full pool whose entries
  all score at least as high; and two merges of the same id leave one entry with the
  larger score.
\<close>

theorem evidence_pool_invariant:
  "distinct (map sid (gather results))
   \<and> length (gather results) \<le> 16
   \<and> (\<forall>s \<in> set (gather results). s \<in> set (concat results)
        \<and> (\<forall>x \<in> set (concat results). sid x = sid s \<longrightarrow> score x \<le> score s))
   \<and> (\<forall>x \<in> set (concat results). sid x \<notin> sid ` set (gather results) \<longrightarrow>
        length (gather results) = 16 \<and> (\<forall>s \<in> set (gather results). score x \<le> score s))
   \<and> (sid a = sid b \<longrightarrow>
        map (\<lambda>s. (sid s, score s)) (gather [[a], [b]]) = [(sid a, max (score a) (score b))])"
  using pool_invariant_gather [of results] gather_same_id_twice [of a b]
  unfolding pool_invariant_def MAX_SOURCES_IN_STATE_def by blast

theorem evidence_pool_invariant_witness:
  "gather example_calls = example_pool
   \<and> distinct (map sid example_pool)
   \<and> length example_pool = 16
   \<and> snippet [2] 20 \<in> set example_pool \<and> snippet [2] 2 \<in> set (concat example_calls)
   \<and> score (snippet [2] 2) \<le> score (snippet [2] 20)
   \<and> snippet [1] 1 \<in> set (concat example_calls) \<and> sid (snippet [1] 1) \<notin> sid ` set example_pool
   \<and> score (snippet [1] 1) \<le> score (snippet [3] 3) \<and> snippet [3] 3 \<in> set example_pool
   \<and> map (\<lambda>s. (sid s, score s)) (gather [[snippet [2] 2], [snippet [2] 20]]) = [([2], 20)]"
proof -
  note inst = evidence_pool_invariant [of example_calls "snippet [2] 2" "snippet [2] 20",
      unfolded gather_example]
  have in_pool: "snippet [2] 20 \<in> set example_pool" "snippet [3] 3 \<in> set example_pool"
    by (simp_all add: example_pool_def)
  have in_obs: "snippet [2] 2 \<in> set (concat example_calls)"
    "snippet [1] 1 \<in> set (concat example_calls)"
    by (simp_all add: example_calls_def)
  have out: "sid (snippet [1] 1) \<notin> sid ` set example_pool"
    by (simp add: example_pool_def)
  from inst have d: "distinct (map sid example_pool)" by blast
  from inst in_pool(1) in_obs(1) have m: "score (snippet [2] 2) \<le> score (snippet [2] 20)"
    by simp
  from inst in_obs(2) out have e: "length example_pool = 16"
    "\<forall>s \<in> set example_pool. score (snippet [1] 1) \<le> score s" by blast+
  from e(2) in_pool(2) have e3: "score (snippet [1] 1) \<le> score (snippet [3] 3)" by blast
  from inst have t: "map (\<lambda>s. (sid s, score s)) (gather [[snippet [2] 2], [snippet [2] 20]])
      = [([2], 20)]" by simp
  show ?thesis using gather_example d e(1) in_pool in_obs m out e3 t by blast
qed

section \<open>The flush rule of the chunker\<close>

lemma trailing_slice:
  "js_slice_from s (max 0 (int (length s) - n)) = drop (length s - nat n) s"
proof (cases "n < 0")
  case True
  then have "js_slice_index (length s) (max 0 (int (length s) - n)) = length s"
    by (simp add: js_slice_index_def)
  with True show ?thesis by (simp add: js_slice_from_def)
next
  case False
  then have "js_slice_index (length s) (max 0 (int (length s) - n)) = length s - nat n"
    by (simp add: js_slice_index_def max_def) linarith
  then show ?thesis by (simp add: js_slice_from_def)
qed

lemma chunk_step_fits:
  assumes "current \<noteq> []" "int (length current) + 2 + int (length p) \<le> tc"
  shows "chunk_step tc oc (chunks, current) p = (chunks, current @ PARAGRAPH_SEP @ p)"
  using assms by (simp add: chunk_step_def Let_def PARAGRAPH_SEP_def)

lemma chunk_step_flush:
  assumes "current \<noteq> []" "tc < int (length current) + 2 + int (length p)"
  shows "chunk_step tc oc (chunks, current) p =
     (if 2 * int (length (overlap_seed oc current p)) > 3 * tc
      then (chunks @ [current, js_slice (overlap_seed oc current p) 0 tc],
            trim (js_slice_from (overlap_seed oc current p) (tc - oc)))
      else (chunks @ [current], overlap_seed oc current p))"
proof -
  have c: "\<not> int (length (current @ PARAGRAPH_SEP @ p)) \<le> tc"
    using assms(2) by (simp add: PARAGRAPH_SEP_def)
  have seed: "(if trim (js_slice_from current (max 0 (int (length current) - oc))) \<noteq> []
        then trim (js_slice_from current (max 0 (int (length current) - oc))) @ PARAGRAPH_SEP @ p
        else p) = overlap_seed oc current p"
    by (simp add: overlap_seed_def Let_def trailing_slice)
  show ?thesis
    unfolding chunk_step_def Let_def fst_conv snd_conv seed
    using assms(1) c by simp
qed

text \<open>
  C5, amended. A non-empty buffer is flushed before the paragraph is added exactly when
  the buffer, the two-character separator and the paragraph together are longer than
  \<open>targetChars\<close>. After a flush the buffer is seeded with the trimmed trailing overlap
  of the flushed buffer, the separator and the paragraph; a seed longer than one and a
  half times \<open>targetChars\<close> is hard-split at once.
\<close>

theorem chunk_flush_rule:
  assumes "current \<noteq> []"
  shows "((\<exists>rest. fst (chunk_step tc oc (chunks, current) p) = chunks @ current # rest)
          \<longleftrightarrow> tc < int (length current) + 2 + int (length p))
    \<and> (tc < int (length current) + 2 + int (length p) \<longrightarrow>
          2 * int (length (overlap_seed oc current p)) \<le> 3 * tc \<longrightarrow>
          chunk_step tc oc (chunks, current) p = (chunks @ [current], overlap_seed oc current p))
    \<and> (tc < int (length current) + 2 + int (length p) \<longrightarrow>
          2 * int (length (overlap_seed oc current p)) > 3 * tc \<longrightarrow>
          chunk_step tc oc (chunks, current) p =
            (chunks @ [current, js_slice (overlap_seed oc current p) 0 tc],
             trim (js_slice_from (overlap_seed oc current p) (tc - oc))))"
proof (cases "tc < int (length current) + 2 + int (length p)")
  case True
  note fl = chunk_step_flush [OF assms True, of oc chunks]
  have "\<exists>rest. fst (chunk_step tc oc (chunks, current) p) = chunks @ current # rest"
    unfolding fl by (simp split: if_splits)
  with True fl show ?thesis by simp
next
  case False
  then have "int (length current) + 2 + int (length p) \<le> tc" by simp
  from chunk_step_fits [OF assms this, of oc chunks]
  have "fst (chunk_step tc oc (chunks, current) p) = chunks" by simp
  then have "\<not> (\<exists>rest. fst (chunk_step tc oc (chunks, current) p) = chunks @ current # rest)"
    by simp
  with False show ?thesis by simp
qed

lemma ws_61 [simp]: "\<not> is_js_whitespace 0x61" "\<not> is_js_whitespace 0x62" "is_js_whitespace 0xA"
  by (simp_all add: is_js_whitespace_def)

lemma seed_ab: "overlap_seed 2 buffer_a paragraph_b = [0x61, 0x61, 0xA, 0xA, 0x62, 0x62, 0x62, 0x62, 0x62]"
  by (simp add: overlap_seed_def buffer_a_def paragraph_b_def trim_def PARAGRAPH_SEP_def)

theorem chunk_flush_rule_witness:
  "buffer_a \<noteq> []
   \<and> 11 < int (length buffer_a) + 2 + int (length paragraph_b)
   \<and> 2 * int (length (overlap_seed 2 buffer_a paragraph_b)) \<le> 3 * 11
   \<and> chunk_step 11 2 ([], buffer_a) paragraph_b =
       ([buffer_a], [0x61, 0x61, 0xA, 0xA, 0x62, 0x62, 0x62, 0x62, 0x62])
   \<and> 2 * int (length (overlap_seed 2 buffer_a paragraph_b)) > 3 * 5
   \<and> chunk_step 5 2 ([], buffer_a) paragraph_b =
       ([buffer_a, [0x61, 0x61, 0xA, 0xA, 0x62]], [0x62, 0x62, 0x62, 0x62, 0x62])"
proof -
  have ne: "buffer_a \<noteq> []" by (simp add: buffer_a_def)
  have len: "length buffer_a = 5" "length paragraph_b = 5"
    by (simp_all add: buffer_a_def paragraph_b_def)
  have a: "11 < int (length buffer_a) + 2 + int (length paragraph_b)"
    "5 < int (length buffer_a) + 2 + int (length paragraph_b)"
    by (simp_all add: len)
  have b: "2 * int (length (overlap_seed 2 buffer_a paragraph_b)) \<le> 3 * 11"
    "2 * int (length (overlap_seed 2 buffer_a paragraph_b)) > 3 * 5"
    by (simp_all add: seed_ab)
  have r1: "chunk_step 11 2 ([], buffer_a) paragraph_b = ([buffer_a], overlap_seed 2 buffer_a paragraph_b)"
    using chunk_flush_rule [OF ne, of 11 2 "[]" paragraph_b] a(1) b(1) by simp
  have r2: "chunk_step 5 2 ([], buffer_a) paragraph_b =
      ([buffer_a, js_slice (overlap_seed 2 buffer_a paragraph_b) 0 5],
       trim (js_slice_from (overlap_seed 2 buffer_a paragraph_b) (5 - 2)))"
    using chunk_flush_rule [OF ne, of 5 2 "[]" paragraph_b] a(2) b(2) by simp
  have s: "js_slice [0x61, 0x61, 0xA, 0xA, 0x62, 0x62, 0x62, 0x62, 0x62 :: 16 word] 0 5
        = [0x61, 0x61, 0xA, 0xA, 0x62]"
    "trim (js_slice_from [0x61, 0x61, 0xA, 0xA, 0x62, 0x62, 0x62, 0x62, 0x62] 3)
        = [0x62, 0x62, 0x62, 0x62, 0x62]"
    by (simp_all add: js_slice_def js_slice_from_def js_slice_index_def trim_def)
  show ?thesis using ne a(1) b r1 r2 by (simp add: seed_ab s)
qed

text \<open>
  Without the separator the rule fails: a buffer and a paragraph of five characters each
  do not exceed a target of 11 together, yet the buffer is flushed, and the next buffer
  is not the plain concatenation of the overlap and the paragraph.
\<close>

theorem chunk_flush_claim_counterexample:
  "fst (chunk_step 11 2 ([], buffer_a) paragraph_b) = [buffer_a]
   \<and> \<not> 11 < int (length buffer_a) + int (length paragraph_b)
   \<and> snd (chunk_step 11 2 ([], buffer_a) paragraph_b)
       \<noteq> drop (length buffer_a - 2) buffer_a @ paragraph_b"
  by (simp add: chunk_step_def Let_def buffer_a_def paragraph_b_def PARAGRAPH_SEP_def
      js_slice_from_def js_slice_index_def trim_def)

section \<open>Normalised string fields of the extraction\<close>

lemma dropWhile_empty_all: "dropWhile P xs = [] \<longleftrightarrow> list_all P xs"
  by (induction xs) auto

lemma last_dropWhile_keep: "dropWhile P xs \<noteq> [] \<Longrightarrow> last (dropWhile P xs) = last xs"
  by (induction xs) (auto split: if_splits)

lemma trim_empty: "trim s = [] \<longleftrightarrow> list_all is_js_whitespace s"
proof -
  let ?d = "dropWhile is_js_whitespace s"
  have "dropWhile is_js_whitespace (rev ?d) = [] \<longleftrightarrow> ?d = []"
  proof
    assume e: "dropWhile is_js_whitespace (rev ?d) = []"
    show "?d = []"
    proof (rule ccontr)
      assume ne: "?d \<noteq> []"
      then have "\<not> is_js_whitespace (hd ?d)" by (rule hd_dropWhile)
      moreover from ne have "hd ?d \<in> set (rev ?d)" by simp
      moreover from e have "\<forall>x \<in> set (rev ?d). is_js_whitespace x"
        by (simp only: dropWhile_eq_Nil_conv)
      ultimately show False by blast
    qed
  next
    assume a: "?d = []"
    show "dropWhile is_js_whitespace (rev ?d) = []" unfolding a by simp
  qed
  then have "trim s = [] \<longleftrightarrow> ?d = []" by (simp only: trim_def rev_is_Nil_conv)
  then show ?thesis by (simp only: dropWhile_empty_all)
qed

lemma trim_ends:
  assumes "trim s \<noteq> []"
  shows "\<not> is_js_whitespace (hd (trim s))" and "\<not> is_js_whitespace (last (trim s))"
proof -
  let ?d = "dropWhile is_js_whitespace s"
  let ?r = "dropWhile is_js_whitespace (rev ?d)"
  from assms have r: "?r \<noteq> []" by (simp add: trim_def)
  have d: "?d \<noteq> []"
  proof
    assume a: "?d = []"
    have "?r = []" unfolding a by simp
    with r show False by simp
  qed
  have "last (trim s) = hd ?r" using r by (simp add: trim_def last_rev)
  moreover have "\<not> is_js_whitespace (hd ?r)" using r by (rule hd_dropWhile)
  ultimately show "\<not> is_js_whitespace (last (trim s))" by simp
  have "hd (trim s) = last ?r" using r by (simp add: trim_def hd_rev)
  also have "\<dots> = last (rev ?d)" using r by (rule last_dropWhile_keep)
  also have "\<dots> = hd ?d" using d by (simp add: last_rev)
  finally have "hd (trim s) = hd ?d" .
  moreover have "\<not> is_js_whitespace (hd ?d)" using d by (rule hd_dropWhile)
  ultimately show "\<not> is_js_whitespace (hd (trim s))" by simp
qed

lemma toNullableString_normalized: "normalized_field raw (toNullableString raw)"
proof (cases raw)
  case (JString s)
  show ?thesis
  proof (cases "trim s = []")
    case True
    then show ?thesis using JString by (simp add: normalized_field_def blank_def trim_empty)
  next
    case False
    then have "\<not> list_all is_js_whitespace s" by (simp add: trim_empty)
    with False trim_ends [OF False] show ?thesis
      using JString by (simp add: normalized_field_def blank_def Let_def)
  qed
qed (simp_all add: normalized_field_def blank_def)

lemma toNullableString_None: "toNullableString raw = None \<longleftrightarrow> blank raw"
  using toNullableString_normalized [of raw]
  by (cases "toNullableString raw") (simp_all add: normalized_field_def)

lemma string_fields_normalize_output:
  "string_fields (normalize_output pf output) = map toNullableString (raw_string_fields output)"
  by (simp add: string_fields_def normalize_output_def raw_string_fields_def)

lemma count_normalize_output:
  "non_null_field_count (normalize_output pf output) =
     length (filter (\<lambda>v. \<not> blank v) (raw_string_fields output))
     + (if toNullableNumber pf (out_rate output) = None then 0 else 1)
     + (if toNullableNumber pf (out_weight output) = None then 0 else 1)"
  by (simp add: non_null_field_count_def normalize_output_def raw_string_fields_def
      toNullableString_None)

text \<open>
  C10. In every extraction result returned to the caller each of the nine string fields
  is null or a non-empty string without leading or trailing whitespace: it is null
  exactly when the model's value is absent, not a string, empty or whitespace only, and
  such a field is not counted among the present fields of the completeness ratio.
\<close>

theorem string_fields_normalized:
  assumes "extractShipmentData e pf (Inr output) = Inr (extraction, c)"
  shows "list_all2 normalized_field (raw_string_fields output) (string_fields extraction)
    \<and> c = roundTo (0.65 * self_assessed_confidence output
                   + 0.35 * (real (non_null_field_count extraction) / 11))
    \<and> non_null_field_count extraction =
        length (filter (\<lambda>v. \<not> blank v) (raw_string_fields output))
        + (if rate extraction = None then 0 else 1)
        + (if weight extraction = None then 0 else 1)"
proof -
  from assms have ex: "extraction = normalize_output pf output"
    and c: "c = computeExtractionConfidence extraction (self_assessed_confidence output)"
    by (auto simp: extractShipmentData_def Let_def split: option.splits)
  have 1: "list_all2 normalized_field (raw_string_fields output) (string_fields extraction)"
    unfolding ex string_fields_normalize_output
    by (simp add: list_all2_map2 list_all2_same toNullableString_normalized)
  have 2: "c = roundTo (0.65 * self_assessed_confidence output
                   + 0.35 * (real (non_null_field_count extraction) / 11))"
    unfolding c by (simp add: computeExtractionConfidence_def Let_def present_count
        length_Object_values)
  have 3: "non_null_field_count extraction =
        length (filter (\<lambda>v. \<not> blank v) (raw_string_fields output))
        + (if rate extraction = None then 0 else 1)
        + (if weight extraction = None then 0 else 1)"
    unfolding ex count_normalize_output by (simp add: normalize_output_def)
  from 1 2 3 show ?thesis by blast
qed

lemma example_normalized:
  "normalize_output (\<lambda>_. None) example_output = example_extraction"
  by (simp add: normalize_output_def example_output_def example_extraction_def trim_def
      is_js_whitespace_def)

lemma example_confidence: "computeExtractionConfidence example_extraction 1 = 0.7773"
  by (simp add: computeExtractionConfidence_def Let_def present_count length_Object_values
      non_null_field_count_def example_extraction_def roundTo_def roundTo_decimals_def round_def)

lemma example_extract:
  "extractShipmentData (default_env [0x6B]) (\<lambda>_. None) (Inr example_output)
     = Inr (example_extraction, 0.7773)"
proof -
  have k: "requireEnv_openAiApiKey (default_env [0x6B]) = None"
    by (simp add: requireEnv_openAiApiKey_def default_env_def)
  have m: "self_assessed_confidence example_output = 1" by (simp add: example_output_def)
  show ?thesis
    by (simp add: extractShipmentData_def k Let_def example_normalized m example_confidence)
qed

theorem string_fields_normalized_witness:
  "extractShipmentData (default_env [0x6B]) (\<lambda>_. None) (Inr example_output)
     = Inr (example_extraction, 0.7773)
   \<and> list_all2 normalized_field (raw_string_fields example_output)
       (string_fields example_extraction)
   \<and> non_null_field_count example_extraction = 4
   \<and> length (filter (\<lambda>v. \<not> blank v) (raw_string_fields example_output)) = 3
   \<and> string_fields example_extraction =
       [Some [0x41], None, None, None, None, None, Some [0x42], Some [0x55, 0x53, 0x44], None]"
proof -
  note inst = string_fields_normalized [OF example_extract]
  have n: "non_null_field_count example_extraction = 4"
    by (simp add: non_null_field_count_def example_extraction_def)
  have r: "rate example_extraction = Some 100" "weight example_extraction = None"
    by (simp_all add: example_extraction_def)
  from inst n r have b: "length (filter (\<lambda>v. \<not> blank v) (raw_string_fields example_output)) = 3"
    by simp
  have f: "string_fields example_extraction =
       [Some [0x41], None, None, None, None, None, Some [0x42], Some [0x55, 0x53, 0x44], None]"
    by (simp add: string_fields_def example_extraction_def)
  from inst example_extract n b f show ?thesis by blast
qed

section \<open>Namespace consistency of a multi-document request\<close>

lemma resolves_item:
  "resolves fetch i \<Longrightarrow> getRegistryItem fetch i = Inr (Some (resolved_item fetch i))"
  by (auto simp: resolves_def resolved_item_def split: sum.splits option.splits)

lemma all_results_resolved:
  "list_all (resolves fetch) ids \<Longrightarrow>
   all_results (map (getRegistryItem fetch) ids) = Inr (map (\<lambda>i. Some (resolved_item fetch i)) ids)"
  by (induction ids) (simp_all add: resolves_item)

lemma no_missing:
  "map fst (filter (\<lambda>p. snd p = None) (zip ids (map (\<lambda>i. Some (f i)) ids))) = []"
proof -
  have "\<forall>p \<in> set (zip ids (map (\<lambda>i. Some (f i)) ids)). snd p \<noteq> None"
    by (auto simp: set_zip)
  then have "filter (\<lambda>p. snd p = None) (zip ids (map (\<lambda>i. Some (f i)) ids)) = []"
    by (simp only: filter_empty_conv)
  then show ?thesis by simp
qed

lemma resolved_all: "map the (filter (\<lambda>item. item \<noteq> None) (map (\<lambda>i. Some (f i)) ids)) = map f ids"
  by (induction ids) simp_all

lemma all_same_first:
  assumes "items \<noteq> []"
  shows "list_all (\<lambda>item. namespace item = namespace (hd items)) items \<longleftrightarrow> share_one_namespace items"
proof
  assume "list_all (\<lambda>item. namespace item = namespace (hd items)) items"
  then have "\<forall>x \<in> set items. namespace x = namespace (hd items)"
    by (simp only: list_all_iff)
  moreover from assms have "hd items \<in> set items" by simp
  ultimately have "namespace ` set items = {namespace (hd items)}" by blast
  then show "share_one_namespace items" by (simp add: share_one_namespace_def)
next
  assume "share_one_namespace items"
  then obtain ns where ns: "namespace ` set items = {ns}"
    unfolding share_one_namespace_def by (rule card_1_singletonE)
  then have a: "\<And>x. x \<in> set items \<Longrightarrow> namespace x = ns" by blast
  from assms have "hd items \<in> set items" by simp
  with a have "namespace (hd items) = ns" by blast
  with a show "list_all (\<lambda>item. namespace item = namespace (hd items)) items"
    by (simp add: list_all_iff)
qed

lemma resolveAskContext_multi:
  assumes "scope_ids ids \<noteq> []" "list_all (resolves fetch) (scope_ids ids)"
  shows "resolveAskContext fetch latest docIdOpt (Some ids) =
     (if share_one_namespace (map (resolved_item fetch) (scope_ids ids))
      then Inr (namespace (resolved_item fetch (hd (scope_ids ids))),
                tenantId (resolved_item fetch (hd (scope_ids ids))), scope_ids ids)
      else Inl InconsistentScope,
      map (\<lambda>i. RegistryFetch (toRegistryId i)) (scope_ids ids))"
proof -
  let ?raw = "filter (\<lambda>i. length i > 0) (map trim ids)"
  have u: "set_spread ?raw = scope_ids ids" by (simp add: scope_ids_def)
  have raw: "length ?raw > 0"
  proof (rule ccontr)
    assume "\<not> length ?raw > 0"
    then have e: "?raw = []" by (simp only: not_gr_zero length_0_conv)
    have "set_spread ?raw = []" unfolding e by simp
    then have "scope_ids ids = []" by (simp only: u)
    with assms(1) show False by simp
  qed
  let ?items = "map (resolved_item fetch) (scope_ids ids)"
  have ne: "?items \<noteq> []" using assms(1) by simp
  have hd: "hd ?items = resolved_item fetch (hd (scope_ids ids))"
    using assms(1) by (simp add: hd_map)
  note same = all_same_first [OF ne, unfolded hd]
  show ?thesis
    unfolding resolveAskContext_def Let_def option.case u
      all_results_resolved [OF assms(2)] sum.case no_missing resolved_all
    using raw same hd by simp
qed

text \<open>
  C7. A request with a non-empty question whose document ids all resolve: when the
  resolved documents do not share one namespace the request fails with
  \<open>InconsistentScope\<close> after the registry fetches alone, with no hybrid query issued;
  when they share one namespace the context is resolved to that namespace and the
  distinct ids, and the workflow runs on it.
\<close>

theorem mixed_namespaces_rejected:
  assumes "trim question \<noteq> []"
    and "scope_ids ids \<noteq> []"
    and "list_all (resolves fetch) (scope_ids ids)"
  shows "(\<not> share_one_namespace (map (resolved_item fetch) (scope_ids ids)) \<longrightarrow>
            askDocumentQuestion e fetch latest rw agent question docIdOpt (Some ids)
              = (Inl InconsistentScope, map (\<lambda>i. RegistryFetch (toRegistryId i)) (scope_ids ids))
            \<and> filter is_HybridQuery
                 (snd (askDocumentQuestion e fetch latest rw agent question docIdOpt (Some ids))) = [])
    \<and> (share_one_namespace (map (resolved_item fetch) (scope_ids ids)) \<longrightarrow>
            fst (resolveAskContext fetch latest docIdOpt (Some ids))
              = Inr (namespace (resolved_item fetch (hd (scope_ids ids))),
                     tenantId (resolved_item fetch (hd (scope_ids ids))), scope_ids ids)
            \<and> askDocumentQuestion e fetch latest rw agent question docIdOpt (Some ids)
              = (fst (runRagWorkflow e (trim question)
                        (namespace (resolved_item fetch (hd (scope_ids ids))))
                        (scope_ids ids) rw agent),
                 map (\<lambda>i. RegistryFetch (toRegistryId i)) (scope_ids ids)
                 @ snd (runRagWorkflow e (trim question)
                        (namespace (resolved_item fetch (hd (scope_ids ids))))
                        (scope_ids ids) rw agent)))"
proof -
  note ctx = resolveAskContext_multi [OF assms(2,3), of latest docIdOpt]
  have q: "length (trim question) \<noteq> 0" using assms(1) by simp
  have nh: "filter is_HybridQuery (map (\<lambda>i. RegistryFetch (toRegistryId i)) xs) = []" for xs
    by (induction xs) simp_all
  show ?thesis
    unfolding askDocumentQuestion_def Let_def ctx using q by (simp add: nh)
qed

lemma example_items:
  "getRegistryItem (example_fetch [0x78] t) [0x41] =
     Inr (Some \<lparr> documentId = [0x41], fileName = [0x66], uploadedAt = [0x74],
                 namespace = lit ''ns:'' @ [0x78], tenantId = [0x78], chunkCount = 1 \<rparr>)"
  "t = [0x78] \<or> t = [0x79] \<Longrightarrow> getRegistryItem (example_fetch [0x78] t) [0x42] =
     Inr (Some \<lparr> documentId = [0x42], fileName = [0x66], uploadedAt = [0x74],
                 namespace = lit ''ns:'' @ t, tenantId = t, chunkCount = 1 \<rparr>)"
  by (auto simp: getRegistryItem_def example_fetch_def toRegistryId_def REGISTRY_ID_PREFIX_def
      toRegistryItem_def example_registry_metadata_def lit_def trim_def is_js_whitespace_def Let_def)

lemma example_scope: "scope_ids [[0x41], [0x20, 0x42], [0x41], []] = [[0x41], [0x42]]"
  by (simp add: scope_ids_def trim_def is_js_whitespace_def)

lemma example_resolves:
  "t = [0x78] \<or> t = [0x79] \<Longrightarrow>
   list_all (resolves (example_fetch [0x78] t)) [[0x41], [0x42]]"
  by (simp add: resolves_def example_items)

lemma example_resolved_namespaces:
  "namespace (resolved_item (example_fetch [0x78] t) [0x41]) = lit ''ns:'' @ [0x78]"
  "tenantId (resolved_item (example_fetch [0x78] t) [0x41]) = [0x78]"
  "t = [0x78] \<or> t = [0x79] \<Longrightarrow>
   namespace (resolved_item (example_fetch [0x78] t) [0x42]) = lit ''ns:'' @ t"
  by (simp_all add: resolved_item_def example_items)

lemma share_by_namespaces:
  "share_one_namespace items \<longleftrightarrow> card (set (map namespace items)) = 1"
  by (simp add: share_one_namespace_def)

theorem mixed_namespaces_rejected_witness:
  "trim [0x71] \<noteq> []
   \<and> scope_ids [[0x41], [0x20, 0x42], [0x41], []] = [[0x41], [0x42]]
   \<and> list_all (resolves (example_fetch [0x78] [0x79]))
        (scope_ids [[0x41], [0x20, 0x42], [0x41], []])
   \<and> \<not> share_one_namespace (map (resolved_item (example_fetch [0x78] [0x79]))
        (scope_ids [[0x41], [0x20, 0x42], [0x41], []]))
   \<and> askDocumentQuestion (default_env [0x6B]) (example_fetch [0x78] [0x79]) (Inr None) None
        (AgentReturned [([0x71], [snippet [0x61] 2])] None)
        [0x71] None (Some [[0x41], [0x20, 0x42], [0x41], []])
       = (Inl InconsistentScope,
          [RegistryFetch (toRegistryId [0x41]), RegistryFetch (toRegistryId [0x42])])
   \<and> list_all (resolves (example_fetch [0x78] [0x78]))
        (scope_ids [[0x41], [0x20, 0x42], [0x41], []])
   \<and> share_one_namespace (map (resolved_item (example_fetch [0x78] [0x78]))
        (scope_ids [[0x41], [0x20, 0x42], [0x41], []]))
   \<and> fst (resolveAskContext (example_fetch [0x78] [0x78]) (Inr None) None
          (Some [[0x41], [0x20, 0x42], [0x41], []]))
       = Inr (lit ''ns:'' @ [0x78], [0x78], [[0x41], [0x42]])"
proof -
  let ?ids = "[[0x41], [0x20, 0x42], [0x41], []] :: jsstring list"
  have q: "trim [0x71] \<noteq> []" by (simp add: trim_def is_js_whitespace_def)
  have sc: "scope_ids ?ids \<noteq> []" by (simp only: example_scope) simp
  have rm: "list_all (resolves (example_fetch [0x78] [0x79])) (scope_ids ?ids)"
    by (simp only: example_scope) (rule example_resolves, simp)
  have rs: "list_all (resolves (example_fetch [0x78] [0x78])) (scope_ids ?ids)"
    by (simp only: example_scope) (rule example_resolves, simp)
  have nm: "\<not> share_one_namespace (map (resolved_item (example_fetch [0x78] [0x79])) (scope_ids ?ids))"
    by (simp add: example_scope share_by_namespaces example_resolved_namespaces lit_def)
  have sm: "share_one_namespace (map (resolved_item (example_fetch [0x78] [0x78])) (scope_ids ?ids))"
    by (simp add: example_scope share_by_namespaces example_resolved_namespaces lit_def)
  from mixed_namespaces_rejected [OF q sc rm, of "default_env [0x6B]" "Inr None" None
      "AgentReturned [([0x71], [snippet [0x61] 2])] None" None] nm
  have m: "askDocumentQuestion (default_env [0x6B]) (example_fetch [0x78] [0x79]) (Inr None) None
        (AgentReturned [([0x71], [snippet [0x61] 2])] None) [0x71] None (Some ?ids)
       = (Inl InconsistentScope, map (\<lambda>i. RegistryFetch (toRegistryId i)) (scope_ids ?ids))"
    by blast
  from mixed_namespaces_rejected [OF q sc rs, of "default_env [0x6B]" "Inr None" None
      "AgentReturned [([0x71], [snippet [0x61] 2])] None" None] sm
  have s: "fst (resolveAskContext (example_fetch [0x78] [0x78]) (Inr None) None (Some ?ids))
       = Inr (namespace (resolved_item (example_fetch [0x78] [0x78]) (hd (scope_ids ?ids))),
              tenantId (resolved_item (example_fetch [0x78] [0x78]) (hd (scope_ids ?ids))),
              scope_ids ?ids)"
    by blast
  show ?thesis
    using q rm nm rs sm m s
    by (simp only: example_scope list.sel list.map example_resolved_namespaces(1,2)) simp
qed

section \<open>Upload: the registry entry follows the chunks\<close>

lemma put_chunk_no_entry:
  "\<not> has_registry_entry e st d \<Longrightarrow> \<not> has_registry_entry e (put_chunk ns st c) d"
  by (simp add: has_registry_entry_def put_chunk_def)

lemma upsert_no_entry:
  "\<not> has_registry_entry e st d \<Longrightarrow> \<not> has_registry_entry e (foldl (put_chunk ns) st recs) d"
  by (induction recs arbitrary: st) (simp_all add: put_chunk_no_entry)

lemma put_chunk_keeps: "chunk_indexed st ns c \<Longrightarrow> chunk_indexed (put_chunk ns' st c') ns c"
  by (simp add: chunk_indexed_def put_chunk_def)

lemma upsert_keeps:
  "chunk_indexed st ns c \<Longrightarrow> chunk_indexed (foldl (put_chunk ns') st recs) ns c"
  by (induction recs arbitrary: st) (simp_all add: put_chunk_keeps)

lemma upsert_indexes:
  "c \<in> set recs \<Longrightarrow> chunk_indexed (foldl (put_chunk ns) st recs) ns c"
proof (induction recs arbitrary: st)
  case Nil
  then show ?case by simp
next
  case (Cons r recs)
  show ?case
  proof (cases "c = r")
    case True
    have "chunk_indexed (put_chunk ns st r) ns r"
      by (simp add: chunk_indexed_def put_chunk_def)
    then show ?thesis using True by (simp add: upsert_keeps)
  next
    case False
    with Cons.prems have "c \<in> set recs" by simp
    then show ?thesis by (simp add: Cons.IH)
  qed
qed

lemma registry_upsert_keeps:
  "chunk_indexed st ns c \<Longrightarrow> chunk_indexed (apply_effect e st (RegistryUpsert item)) ns c"
  by (simp add: chunk_indexed_def)

lemma state_after_cases:
  "state_after e st0 [] k = st0"
  "state_after e st0 [a] k = (if k = 0 then st0 else apply_effect e st0 a)"
  "state_after e st0 [a, b] k =
     (if k = 0 then st0 else if k = 1 then apply_effect e st0 a
      else apply_effect e (apply_effect e st0 a) b)"
proof -
  show "state_after e st0 [] k = st0" by (simp add: state_after_def)
  show "state_after e st0 [a] k = (if k = 0 then st0 else apply_effect e st0 a)"
    by (cases k) (simp_all add: state_after_def)
  show "state_after e st0 [a, b] k =
     (if k = 0 then st0 else if k = 1 then apply_effect e st0 a
      else apply_effect e (apply_effect e st0 a) b)"
  proof (cases k)
    case 0
    then show ?thesis by (simp add: state_after_def)
  next
    case (Suc j)
    then show ?thesis by (cases j) (simp_all add: state_after_def)
  qed
qed

text \<open>The three shapes of the log of an upload that has chunks.\<close>

lemma upload_trace_cases:
  assumes "prepareUpload e lower ext file_name file_text tenantOpt = Inr (item, chunks)"
    and "chunks \<noteq> []"
  obtains (partial) n where
      "snd (uploadDocument e lower ext file_name file_text tenantOpt)
         = [IndexUpsert (namespace item) (take n chunks)]"
  | (indexed)
      "snd (uploadDocument e lower ext file_name file_text tenantOpt)
         = [IndexUpsert (namespace item) chunks]"
  | (saved)
      "snd (uploadDocument e lower ext file_name file_text tenantOpt)
         = [IndexUpsert (namespace item) chunks, RegistryUpsert item]"
proof (cases "upsert_outcome ext")
  case Completed
  show ?thesis
  proof (cases "save_outcome ext")
    case c2: Completed
    have "snd (uploadDocument e lower ext file_name file_text tenantOpt)
         = [IndexUpsert (namespace item) chunks, RegistryUpsert item]"
      using assms Completed c2
      by (simp add: uploadDocument_def upsertHybridChunks_def saveRegistryItem_def)
    then show ?thesis by (rule saved)
  next
    case (Failed err n)
    show ?thesis
    proof (cases "n > 0")
      case True
      have "snd (uploadDocument e lower ext file_name file_text tenantOpt)
         = [IndexUpsert (namespace item) chunks, RegistryUpsert item]"
        using assms Completed Failed True
        by (simp add: uploadDocument_def upsertHybridChunks_def saveRegistryItem_def)
      then show ?thesis by (rule saved)
    next
      case False
      have "snd (uploadDocument e lower ext file_name file_text tenantOpt)
         = [IndexUpsert (namespace item) chunks]"
        using assms Completed Failed False
        by (simp add: uploadDocument_def upsertHybridChunks_def saveRegistryItem_def)
      then show ?thesis by (rule indexed)
    qed
  qed
next
  case (Failed err n)
  have "snd (uploadDocument e lower ext file_name file_text tenantOpt)
         = [IndexUpsert (namespace item) (take n chunks)]"
    using assms Failed
    by (simp add: uploadDocument_def upsertHybridChunks_def)
  then show ?thesis by (rule partial)
qed

lemma upload_no_chunks:
  assumes "prepareUpload e lower ext file_name file_text tenantOpt = Inr (item, [])"
  shows "uploadDocument e lower ext file_name file_text tenantOpt =
     (Inl (DocIntelligenceError (lit ''Could not extract usable text from this document.'') 422), [])"
  using assms by (simp add: uploadDocument_def)

text \<open>
  C9. For an upload that reaches chunking, with no registry entry for the new document
  id beforehand: the log holds a save of the registry item only after the upsert of all
  the chunks; in every state the upload passes through, a registry entry for the
  document exists only if every chunk is in the index; and an upload with zero chunks
  raises status 422 with nothing written.
\<close>

theorem registry_entry_after_chunks:
  assumes "prepareUpload e lower ext file_name file_text tenantOpt = Inr (item, chunks)"
    and "\<not> has_registry_entry e st0 (documentId item)"
  shows "(RegistryUpsert item' \<in> set (snd (uploadDocument e lower ext file_name file_text tenantOpt))
            \<longrightarrow> snd (uploadDocument e lower ext file_name file_text tenantOpt)
                  = [IndexUpsert (namespace item) chunks, RegistryUpsert item])
    \<and> (has_registry_entry e
          (state_after e st0 (snd (uploadDocument e lower ext file_name file_text tenantOpt)) k)
          (documentId item)
        \<longrightarrow> list_all
              (chunk_indexed
                 (state_after e st0 (snd (uploadDocument e lower ext file_name file_text tenantOpt)) k)
                 (namespace item))
              chunks)
    \<and> (chunks = [] \<longrightarrow>
          uploadDocument e lower ext file_name file_text tenantOpt =
            (Inl (DocIntelligenceError
               (lit ''Could not extract usable text from this document.'') 422), []))"
proof (cases "chunks = []")
  case True
  from assms(1) have "uploadDocument e lower ext file_name file_text tenantOpt =
     (Inl (DocIntelligenceError (lit ''Could not extract usable text from this document.'') 422), [])"
    unfolding True by (rule upload_no_chunks)
  then show ?thesis using assms(2) True by (simp add: state_after_cases)
next
  case False
  let ?ns = "namespace item"
  let ?d = "documentId item"
  from assms(1) False show ?thesis
  proof (cases rule: upload_trace_cases)
    case (partial n)
    have "\<not> has_registry_entry e (apply_effect e st0 (IndexUpsert ?ns (take n chunks))) ?d"
      using assms(2) by (simp add: upsert_no_entry)
    then show ?thesis using assms(2) False unfolding partial by (simp add: state_after_cases)
  next
    case indexed
    have "\<not> has_registry_entry e (apply_effect e st0 (IndexUpsert ?ns chunks)) ?d"
      using assms(2) by (simp add: upsert_no_entry)
    then show ?thesis using assms(2) False unfolding indexed by (simp add: state_after_cases)
  next
    case saved
    have a: "\<not> has_registry_entry e (apply_effect e st0 (IndexUpsert ?ns chunks)) ?d"
      using assms(2) by (simp add: upsert_no_entry)
    have "\<forall>c \<in> set chunks. chunk_indexed (apply_effect e st0 (IndexUpsert ?ns chunks)) ?ns c"
      by (simp add: upsert_indexes)
    then have "\<forall>c \<in> set chunks.
        chunk_indexed (apply_effect e (apply_effect e st0 (IndexUpsert ?ns chunks))
          (RegistryUpsert item)) ?ns c"
      using registry_upsert_keeps by blast
    then have b: "list_all (chunk_indexed (apply_effect e (apply_effect e st0
        (IndexUpsert ?ns chunks)) (RegistryUpsert item)) ?ns) chunks"
      by (simp only: list_all_iff)
    show ?thesis using assms(2) False a b unfolding saved
      by (simp only: state_after_cases) simp
  qed
qed

lemma ws_letters [simp]: "\<not> is_js_whitespace 0x68" "\<not> is_js_whitespace 0x69"
  by (simp_all add: is_js_whitespace_def)

lemma example_chunks:
  "createChunksFromPages [0x75] (lit ''tenant-demo'') (lit ''a.txt'') [0x74]
     [(1, [0x68, 0x69])] None None = [example_chunk]"
  "createChunksFromPages [0x75] (lit ''tenant-demo'') (lit ''a.txt'') [0x74]
     [(1, [])] None None = []"
  by (simp_all add: createChunksFromPages_def Let_def splitIntoParagraphs_def trim_def
      split_blank_lines_def collapse_whitespace_def buildOverlappingChunks_def chunk_step_def
      page_records_def number_string_def digits_of.simps example_chunk_def
      DEFAULT_TARGET_CHARS_def DEFAULT_OVERLAP_CHARS_def lit_def)

lemma example_extension: "getExtension (\<lambda>s. s) (lit ''a.txt'') = lit ''txt''"
  by (simp add: getExtension_def lit_def)

lemma example_prepare:
  "prepareUpload (default_env [0x6B]) (\<lambda>s. s) example_externals (lit ''a.txt'') [0x68, 0x69] None
     = Inr (example_item 1, [example_chunk])"
  "prepareUpload (default_env [0x6B]) (\<lambda>s. s) example_externals (lit ''a.txt'') [] None
     = Inr (example_item 0, [])"
proof -
  have n: "lit ''a.txt'' \<noteq> []" by (simp add: lit_def)
  have sup: "lit ''txt'' \<in> set SUPPORTED_FILE_TYPES" by (simp add: SUPPORTED_FILE_TYPES_def)
  have ns: "buildNamespace (default_env [0x6B]) DEFAULT_TENANT = lit ''tenant-demo:tenant-demo''"
    by (simp add: buildNamespace_def default_env_def DEFAULT_TENANT_def lit_def)
  have ex: "uuid example_externals = [0x75]" "iso_now example_externals = [0x74]"
    by (simp_all add: example_externals_def)
  have dt: "DEFAULT_TENANT = lit ''tenant-demo''" by (simp add: DEFAULT_TENANT_def)
  show "prepareUpload (default_env [0x6B]) (\<lambda>s. s) example_externals (lit ''a.txt'') [0x68, 0x69] None
     = Inr (example_item 1, [example_chunk])"
    unfolding prepareUpload_def Let_def option.case
    by (simp add: n example_extension sup parseFile_def ex ns example_item_def)
       (simp add: dt example_chunks)
  show "prepareUpload (default_env [0x6B]) (\<lambda>s. s) example_externals (lit ''a.txt'') [] None
     = Inr (example_item 0, [])"
    unfolding prepareUpload_def Let_def option.case
    by (simp add: n example_extension sup parseFile_def ex ns example_item_def)
       (simp add: dt example_chunks)
qed

lemma example_upload:
  "uploadDocument (default_env [0x6B]) (\<lambda>s. s) example_externals (lit ''a.txt'') [0x68, 0x69] None
     = (Inr \<lparr> up_document_id = [0x75], up_file_name = lit ''a.txt'', up_chunk_count = 1,
              up_namespace = lit ''tenant-demo:tenant-demo'', up_uploaded_at = [0x74] \<rparr>,
        [IndexUpsert (lit ''tenant-demo:tenant-demo'') [example_chunk],
         RegistryUpsert (example_item 1)])"
  by (simp only: uploadDocument_def example_prepare)
     (simp add: upsertHybridChunks_def saveRegistryItem_def example_externals_def example_item_def)

lemma example_states:
  "\<not> has_registry_entry (default_env [0x6B]) (\<lambda>k. None) [0x75]"
  "\<not> has_registry_entry (default_env [0x6B])
       (state_after (default_env [0x6B]) (\<lambda>k. None)
          [IndexUpsert (lit ''tenant-demo:tenant-demo'') [example_chunk],
           RegistryUpsert (example_item 1)] 1) [0x75]"
  "has_registry_entry (default_env [0x6B])
       (state_after (default_env [0x6B]) (\<lambda>k. None)
          [IndexUpsert (lit ''tenant-demo:tenant-demo'') [example_chunk],
           RegistryUpsert (example_item 1)] 2) [0x75]"
  by (simp_all add: has_registry_entry_def state_after_cases put_chunk_def
      getRegistryNamespace_def default_env_def example_item_def lit_def)

theorem registry_entry_after_chunks_witness:
  "prepareUpload (default_env [0x6B]) (\<lambda>s. s) example_externals (lit ''a.txt'') [0x68, 0x69] None
     = Inr (example_item 1, [example_chunk])
   \<and> \<not> has_registry_entry (default_env [0x6B]) (\<lambda>k. None) (documentId (example_item 1))
   \<and> snd (uploadDocument (default_env [0x6B]) (\<lambda>s. s) example_externals (lit ''a.txt'')
          [0x68, 0x69] None)
       = [IndexUpsert (namespace (example_item 1)) [example_chunk], RegistryUpsert (example_item 1)]
   \<and> \<not> has_registry_entry (default_env [0x6B])
       (state_after (default_env [0x6B]) (\<lambda>k. None)
          (snd (uploadDocument (default_env [0x6B]) (\<lambda>s. s) example_externals (lit ''a.txt'')
             [0x68, 0x69] None)) 1)
       (documentId (example_item 1))
   \<and> has_registry_entry (default_env [0x6B])
       (state_after (default_env [0x6B]) (\<lambda>k. None)
          (snd (uploadDocument (default_env [0x6B]) (\<lambda>s. s) example_externals (lit ''a.txt'')
             [0x68, 0x69] None)) 2)
       (documentId (example_item 1))
   \<and> list_all
       (chunk_indexed
          (state_after (default_env [0x6B]) (\<lambda>k. None)
             (snd (uploadDocument (default_env [0x6B]) (\<lambda>s. s) example_externals (lit ''a.txt'')
                [0x68, 0x69] None)) 2)
          (namespace (example_item 1)))
       [example_chunk]
   \<and> prepareUpload (default_env [0x6B]) (\<lambda>s. s) example_externals (lit ''a.txt'') [] None
     = Inr (example_item 0, [])
   \<and> uploadDocument (default_env [0x6B]) (\<lambda>s. s) example_externals (lit ''a.txt'') [] None
     = (Inl (DocIntelligenceError
          (lit ''Could not extract usable text from this document.'') 422), [])"
proof -
  have d: "documentId (example_item n) = [0x75]"
    "namespace (example_item n) = lit ''tenant-demo:tenant-demo''" for n
    by (simp_all add: example_item_def)
  have fresh: "\<not> has_registry_entry (default_env [0x6B]) (\<lambda>k. None) (documentId (example_item n))"
    for n
    unfolding d by (rule example_states(1))
  have tr: "snd (uploadDocument (default_env [0x6B]) (\<lambda>s. s) example_externals (lit ''a.txt'')
          [0x68, 0x69] None)
       = [IndexUpsert (namespace (example_item 1)) [example_chunk], RegistryUpsert (example_item 1)]"
    unfolding d by (simp add: example_upload)
  have s1: "\<not> has_registry_entry (default_env [0x6B])
       (state_after (default_env [0x6B]) (\<lambda>k. None)
          (snd (uploadDocument (default_env [0x6B]) (\<lambda>s. s) example_externals (lit ''a.txt'')
             [0x68, 0x69] None)) 1)
       (documentId (example_item 1))"
    unfolding tr unfolding d by (rule example_states(2))
  have s2: "has_registry_entry (default_env [0x6B])
       (state_after (default_env [0x6B]) (\<lambda>k. None)
          (snd (uploadDocument (default_env [0x6B]) (\<lambda>s. s) example_externals (lit ''a.txt'')
             [0x68, 0x69] None)) 2)
       (documentId (example_item 1))"
    unfolding tr unfolding d by (rule example_states(3))
  from registry_entry_after_chunks [OF example_prepare(1) fresh, of _ 2] s2
  have ix: "list_all
       (chunk_indexed
          (state_after (default_env [0x6B]) (\<lambda>k. None)
             (snd (uploadDocument (default_env [0x6B]) (\<lambda>s. s) example_externals (lit ''a.txt'')
                [0x68, 0x69] None)) 2)
          (namespace (example_item 1)))
       [example_chunk]"
    by blast
  from registry_entry_after_chunks [OF example_prepare(2) fresh]
  have z: "uploadDocument (default_env [0x6B]) (\<lambda>s. s) example_externals (lit ''a.txt'') [] None
     = (Inl (DocIntelligenceError
          (lit ''Could not extract usable text from this document.'') 422), [])"
    by blast
  from example_prepare fresh [of 1] tr s1 s2 ix z show ?thesis by blast
qed

end
